theory Spec2Isabelle
  imports Main "HOL-Library.AList"
begin

section \<open>The connection core of neffos (conn.go)\<close>

text \<open>
  A shallow embedding of \<^verbatim>\<open>conn.go\<close>: the connection record, the write gate, \<^verbatim>\<open>Write\<close>,
  \<^verbatim>\<open>Ask\<close>, \<^verbatim>\<open>Close\<close>, the acknowledgement path of the reader and the server-side wait of
  \<^verbatim>\<open>Connect\<close>. Byte slices and Go strings are both \<open>string\<close> (a list of bytes). Every
  method that mutates the connection takes the connection and returns the new one. What
  the connection does to the outside (socket writes, fired events, dispatched payloads,
  closing the network connection) is appended to logs kept in the record.
\<close>

subsection \<open>Data\<close>

type_synonym bytes = string

text \<open>
  The errors conn.go returns. \<open>CloseError code err\<close> is \<^verbatim>\<open>CloseError{Code: code, error: err}\<close>;
  \<open>DeadlineExceeded\<close> and \<open>Canceled\<close> are the two errors of package context;
  \<open>ErrorString s\<close> is \<^verbatim>\<open>errors.New(s)\<close>.
\<close>

datatype error =
    ErrWrite
  | ErrBadNamespace
  | ErrInvalidPayload
  | DeadlineExceeded
  | Canceled
  | CloseError int error
  | ErrorString string

text \<open>The fields of \<^verbatim>\<open>Message\<close> that conn.go reads or writes (spec section 4.3).\<close>

record message =
  Namespace :: string
  Event :: string
  Room :: string
  Body :: bytes
  wait :: string
  IsLocal :: bool
  IsForced :: bool
  IsNative :: bool
  isNoOp :: bool
  isInvalid :: bool
  Err :: "error option"
  FromExplicit :: string
  SetBinary :: bool
  locked :: bool

text \<open>\<^verbatim>\<open>Message{}\<close>, the zero value.\<close>

definition zeroMessage :: message where
  "zeroMessage = \<lparr>Namespace = [], Event = [], Room = [], Body = [], wait = [],
     IsLocal = False, IsForced = False, IsNative = False, isNoOp = False, isInvalid = False,
     Err = None, FromExplicit = [], SetBinary = False, locked = False\<rparr>"

text \<open>
  \<^verbatim>\<open>NSConn\<close>, as far as conn.go looks into it: its namespace name and the names of its
  joined rooms (the keys of \<^verbatim>\<open>ns.rooms\<close>).
\<close>

record nsconn =
  namespace :: string
  rooms :: "string list"

text \<open>
  The readiness latch (\<^verbatim>\<open>waiterOnce\<close>). An error held by the latch is represented by its
  text, which is all conn.go reads of it (\<^verbatim>\<open>err.Error()\<close>); \<open>None\<close> is the nil error.
\<close>

datatype latch = Pending | Resolved "string option"

text \<open>What one call of \<^verbatim>\<open>socket.WriteBinary\<close>/\<^verbatim>\<open>WriteText\<close> returns: nil, an error for
  which \<^verbatim>\<open>IsCloseError\<close> is false, or one for which it is true.\<close>

datatype write_result = WriteOk | WriteFailed | WriteClosed

text \<open>
  The connection. \<open>server\<close> is \<open>None\<close> on a client (\<^verbatim>\<open>c.server == nil\<close>) and otherwise
  holds the server-wide waiter table \<^verbatim>\<open>c.server.waitingMessages\<close>. The two Go maps are
  association lists read with \<open>map_of\<close>; the order of a list stands for the order in which
  \<^verbatim>\<open>range\<close> happens to visit the map. A channel is the number it was made with.
  The last fields are the logs: the calls of the socket's write methods (frame and binary
  flag), the calls of \<^verbatim>\<open>fireEvent\<close> (key of the NS-table entry and message), the calls of
  \<^verbatim>\<open>forceLeaveAll\<close> (namespace and flag), the payloads the reader gives to
  \<^verbatim>\<open>HandlePayload\<close>, the
  number of \<^verbatim>\<open>NetConn().Close()\<close> calls, of \<^verbatim>\<open>close(c.closeCh)\<close> calls and of sends on
  \<^verbatim>\<open>c.server.disconnect\<close>.
\<close>

record conn =
  id_conn :: string
  serverConnID :: string
  server :: "(string \<times> nat) list option"
  readiness :: latch
  acknowledged :: nat
  connectedNamespaces :: "(string \<times> nsconn) list"
  waitingMessages :: "(string \<times> nat) list"
  allowNativeMessages :: bool
  shouldHandleOnlyNativeMessages :: bool
  queue :: "bytes list"
  closed :: nat
  nextChan :: nat
  waitSeq :: nat
  socketWrites :: "(bytes \<times> bool) list"
  fired :: "(string \<times> message) list"
  forceLeft :: "(string \<times> bool) list"
  handled :: "bytes list"
  netConnClosed :: nat
  closeChClosed :: nat
  serverDisconnects :: nat

text \<open>
  How a call made while dispatching a payload ends: it returns an error (\<open>None\<close> is nil),
  it panics, or it does not come back (a wait that nothing ends).
\<close>

datatype dispatch_end = Handled "error option" | Panic | Blocked

text \<open>
  What conn.go uses and the rest of the package declares: the name of the disconnect
  event, the predicates on messages, the serializer and the deserializer, the wait-token
  generator (a function of the side and of the number of tokens minted so far) and the
  socket (the result of its n-th write call). The last three stand for what
  \<^verbatim>\<open>handleMessage\<close> hands a message to: the user's handler behind \<^verbatim>\<open>fireEvent\<close>, which
  may do to the connection whatever its exported methods allow; whether the send on a
  waiter's channel finds its receiver; and the \<^verbatim>\<open>switch\<close> on the event (lines 334 to
  361), which runs handlers and methods of \<^verbatim>\<open>NSConn\<close> that are not in conn.go. They are
  parameters of the model; every property below that does not name \<open>env0\<close> holds for
  all of them.
\<close>

record env =
  OnNamespaceDisconnect :: string
  isConnect :: "message \<Rightarrow> bool"
  isDisconnect :: "message \<Rightarrow> bool"
  isRoomJoin :: "message \<Rightarrow> bool"
  isRoomLeft :: "message \<Rightarrow> bool"
  isWait :: "message \<Rightarrow> bool \<Rightarrow> bool"
  serializeMessage :: "message \<Rightarrow> bytes"
  deserializeMessage :: "bytes \<Rightarrow> bool \<Rightarrow> bool \<Rightarrow> message"
  genWait :: "bool \<Rightarrow> nat \<Rightarrow> string"
  socketWrite :: "nat \<Rightarrow> write_result"
  fireEvent :: "nsconn \<Rightarrow> message \<Rightarrow> conn \<Rightarrow> conn \<times> dispatch_end"
  chanSend :: "nat \<Rightarrow> message \<Rightarrow> bool"
  eventSwitch :: "message \<Rightarrow> conn \<Rightarrow> conn \<times> dispatch_end"

subsection \<open>Identity and flags\<close>

definition IsClient :: "conn \<Rightarrow> bool" where
  "IsClient c = (server c = None)"

definition Is :: "conn \<Rightarrow> string \<Rightarrow> bool" where
  "Is c connID =
     (if connID = [] then False
      else if IsClient c then id_conn c = connID
      else serverConnID c = connID)"

definition isAcknowledged :: "conn \<Rightarrow> bool" where
  "isAcknowledged c = (acknowledged c > 0)"

definition IsClosed :: "conn \<Rightarrow> bool" where
  "IsClosed c = (closed c > 0)"

text \<open>
  Modelled from the spec: \<^verbatim>\<open>waiterOnce.unwait\<close> is not in conn.go. Spec section 9: one
  resolver, resolution sticky, re-resolving is a no-op.
\<close>

definition unwait :: "string option \<Rightarrow> conn \<Rightarrow> conn" where
  "unwait r c = (case readiness c of Pending \<Rightarrow> c\<lparr>readiness := Resolved r\<rparr> | Resolved _ \<Rightarrow> c)"

subsection \<open>Close\<close>

text \<open>The message \<^verbatim>\<open>Close\<close> fabricates, with \<^verbatim>\<open>disconnectMsg.Namespace = ns.namespace\<close>.\<close>

definition disconnectMsg :: "env \<Rightarrow> nsconn \<Rightarrow> message" where
  "disconnectMsg E ns =
     zeroMessage\<lparr>Event := OnNamespaceDisconnect E, IsForced := True, IsLocal := True,
       Namespace := namespace ns\<rparr>"

text \<open>
  The loop over the NS-table: \<^verbatim>\<open>range\<close> yields an entry that is in the map, the body
  force-leaves its rooms, fires the event and deletes the entry, until the map is empty.
\<close>

function Close_namespaces :: "env \<Rightarrow> conn \<Rightarrow> conn" where
  "Close_namespaces E c =
     (case connectedNamespaces c of
        [] \<Rightarrow> c
      | (name, ns) # _ \<Rightarrow>
          Close_namespaces E
            (c\<lparr>forceLeft := forceLeft c @ [(namespace ns, True)],
               fired := fired c @ [(name, disconnectMsg E ns)],
               connectedNamespaces := AList.delete name (connectedNamespaces c)\<rparr>))"
  by pat_completeness auto
termination
  by (relation "measure (\<lambda>(E, c). length (connectedNamespaces c))")
     (auto simp: less_Suc_eq_le length_delete_le)

text \<open>The loop over the waiter registry: delete every key that \<^verbatim>\<open>range\<close> yields.\<close>

function Close_waiting :: "(string \<times> nat) list \<Rightarrow> (string \<times> nat) list" where
  "Close_waiting m =
     (case m of [] \<Rightarrow> [] | (w, _) # _ \<Rightarrow> Close_waiting (AList.delete w m))"
  by pat_completeness auto
termination
  by (relation "measure length") (auto simp: less_Suc_eq_le length_delete_le)

text \<open>
  \<^verbatim>\<open>Close\<close>. The compare-and-swap on \<open>closed\<close> is the outer test; the goroutine that
  notifies the server is counted where it is started.
\<close>

definition Close :: "env \<Rightarrow> conn \<Rightarrow> conn" where
  "Close E c =
     (if closed c = 0 then
        let c1 = c\<lparr>closed := 1\<rparr>;
            c2 = (if \<not> shouldHandleOnlyNativeMessages c1 then
                    let d = Close_namespaces E c1
                    in d\<lparr>waitingMessages := Close_waiting (waitingMessages d)\<rparr>
                  else c1);
            c3 = c2\<lparr>acknowledged := 0\<rparr>;
            c4 = (if \<not> IsClient c3 then c3\<lparr>serverDisconnects := Suc (serverDisconnects c3)\<rparr>
                  else c3);
            c5 = c4\<lparr>closeChClosed := Suc (closeChClosed c4)\<rparr>
        in c5\<lparr>netConnClosed := Suc (netConnClosed c5)\<rparr>
      else c)"

text \<open>
  \<^verbatim>\<open>Close\<close> as its callers run it side by side. A caller goes through the method one
  step at a time: the compare-and-swap, which is one atomic step that either takes the
  flag or ends the call; the loop over the NS-table, under its mutex; the loop over the
  registry, under its mutex; the store to \<open>acknowledged\<close>; starting the notifying
  goroutine; closing the close channel; closing the network connection.
\<close>

datatype close_pc =
  AtCAS | AtNamespaces | AtWaiting | AtAck | AtNotify | AtCloseCh | AtNetConn | CloseDone

fun Close_step :: "env \<Rightarrow> conn \<times> close_pc \<Rightarrow> conn \<times> close_pc" where
  "Close_step E (c, AtCAS) =
     (if closed c = 0 then (c\<lparr>closed := 1\<rparr>, AtNamespaces) else (c, CloseDone))"
| "Close_step E (c, AtNamespaces) =
     (if \<not> shouldHandleOnlyNativeMessages c then (Close_namespaces E c, AtWaiting)
      else (c, AtAck))"
| "Close_step E (c, AtWaiting) =
     (c\<lparr>waitingMessages := Close_waiting (waitingMessages c)\<rparr>, AtAck)"
| "Close_step E (c, AtAck) = (c\<lparr>acknowledged := 0\<rparr>, AtNotify)"
| "Close_step E (c, AtNotify) =
     (if \<not> IsClient c then (c\<lparr>serverDisconnects := Suc (serverDisconnects c)\<rparr>, AtCloseCh)
      else (c, AtCloseCh))"
| "Close_step E (c, AtCloseCh) = (c\<lparr>closeChClosed := Suc (closeChClosed c)\<rparr>, AtNetConn)"
| "Close_step E (c, AtNetConn) = (c\<lparr>netConnClosed := Suc (netConnClosed c)\<rparr>, CloseDone)"
| "Close_step E (c, CloseDone) = (c, CloseDone)"

text \<open>
  The callers share the connection; each has its own place in the method. A schedule is
  the list of the callers' numbers in the order in which they take their steps.
\<close>

definition Close_caller_step ::
  "env \<Rightarrow> conn \<times> close_pc list \<Rightarrow> nat \<Rightarrow> conn \<times> close_pc list" where
  "Close_caller_step E s i =
     (case s of (c, pcs) \<Rightarrow>
        if i < length pcs then
          (case Close_step E (c, pcs ! i) of (d, pc) \<Rightarrow> (d, pcs[i := pc]))
        else (c, pcs))"

definition Close_callers ::
  "env \<Rightarrow> conn \<times> close_pc list \<Rightarrow> nat list \<Rightarrow> conn \<times> close_pc list" where
  "Close_callers E s sched = foldl (Close_caller_step E) s sched"

text \<open>How many steps of the method lie behind a caller.\<close>

fun close_pc_rank :: "close_pc \<Rightarrow> nat" where
  "close_pc_rank AtCAS = 0"
| "close_pc_rank AtNamespaces = 1"
| "close_pc_rank AtWaiting = 2"
| "close_pc_rank AtAck = 3"
| "close_pc_rank AtNotify = 4"
| "close_pc_rank AtCloseCh = 5"
| "close_pc_rank AtNetConn = 6"
| "close_pc_rank CloseDone = 7"

subsection \<open>Writing\<close>

text \<open>\<^verbatim>\<open>write\<close> (the lower-case method): one call of the socket; a close error closes
  the connection.\<close>

definition write_conn :: "env \<Rightarrow> conn \<Rightarrow> bytes \<Rightarrow> bool \<Rightarrow> conn \<times> bool" where
  "write_conn E c b binary =
     (let r = socketWrite E (length (socketWrites c));
          c1 = c\<lparr>socketWrites := socketWrites c @ [(b, binary)]\<rparr>
      in case r of
           WriteOk \<Rightarrow> (c1, True)
         | WriteFailed \<Rightarrow> (c1, False)
         | WriteClosed \<Rightarrow> (Close E c1, False))"

text \<open>\<^verbatim>\<open>canWrite\<close>. On the server it resolves the readiness latch, hence the new connection.\<close>

definition canWrite :: "env \<Rightarrow> conn \<Rightarrow> message \<Rightarrow> conn \<times> bool" where
  "canWrite E c msg =
     (if IsClosed c then (c, False)
      else
        let c1 = (if \<not> IsClient c then unwait None c else c) in
        if \<not> isConnect E msg \<and> \<not> isDisconnect E msg \<and>
           (case map_of (connectedNamespaces c1) (Namespace msg) of
              None \<Rightarrow> True
            | Some ns \<Rightarrow>
                Room msg \<noteq> [] \<and> \<not> isRoomJoin E msg \<and> \<not> isRoomLeft E msg \<and>
                Room msg \<notin> set (rooms ns))
        then (c1, False)
        else if Is c1 (FromExplicit msg) then (c1, False)
        else (c1, True))"

text \<open>\<^verbatim>\<open>Write\<close>.\<close>

definition Write :: "env \<Rightarrow> conn \<Rightarrow> message \<Rightarrow> conn \<times> bool" where
  "Write E c msg =
     (case canWrite E c msg of
        (c1, False) \<Rightarrow> (c1, False)
      | (c1, True) \<Rightarrow>
          let msg1 = msg\<lparr>FromExplicit := []\<rparr>;
              b = serializeMessage E msg1
          in write_conn E c1 b (SetBinary msg1))"

subsection \<open>The acknowledgement path of the reader\<close>

definition ackBinary :: char where "ackBinary = CHR ''M''"
definition ackIDBinary :: char where "ackIDBinary = CHR ''A''"
definition ackOKBinary :: char where "ackOKBinary = CHR ''K''"
definition ackNotOKBinary :: char where "ackNotOKBinary = CHR ''H''"

text \<open>
  \<^verbatim>\<open>handleMessage\<close> down to its \<^verbatim>\<open>switch\<close>: what it does with the message. A send on a
  channel of the server-wide table is kept apart from a send on a channel of this
  connection's registry: the channels of the former are not made by \<^verbatim>\<open>Conn.Ask\<close>.
\<close>

datatype route = Invalid | Native | SendServer nat | SendOn nat | ByEvent

definition handleMessage_route :: "env \<Rightarrow> conn \<Rightarrow> message \<Rightarrow> route" where
  "handleMessage_route E c msg =
     (if isInvalid msg then Invalid
      else if IsNative msg \<and> allowNativeMessages c then Native
      else
        case (case server c of None \<Rightarrow> None | Some tbl \<Rightarrow> map_of tbl (wait msg)) of
          Some ch \<Rightarrow> SendServer ch
        | None \<Rightarrow>
            (case (if isWait E msg (IsClient c) then map_of (waitingMessages c) (wait msg)
                   else None) of
               Some ch \<Rightarrow> SendOn ch
             | None \<Rightarrow> ByEvent))"

text \<open>
  \<^verbatim>\<open>handleMessage\<close>. An invalid message is refused. A native message goes to the handler
  of the empty namespace: \<^verbatim>\<open>c.Namespace("")\<close> is nil when that namespace is not in the
  NS-table, and \<^verbatim>\<open>ns.events\<close> on line 310 is then a nil dereference. A message for a
  waiter is sent on the waiter's channel, and \<^verbatim>\<open>handleMessage\<close> returns nil once it is
  received. Every other message goes to the \<^verbatim>\<open>switch\<close> on its event.
\<close>

definition handleMessage :: "env \<Rightarrow> conn \<Rightarrow> message \<Rightarrow> conn \<times> dispatch_end" where
  "handleMessage E c msg =
     (case handleMessage_route E c msg of
        Invalid \<Rightarrow> (c, Handled (Some ErrInvalidPayload))
      | Native \<Rightarrow>
          (case map_of (connectedNamespaces c) [] of
             None \<Rightarrow> (c, Panic)
           | Some ns \<Rightarrow> fireEvent E ns msg c)
      | SendServer ch \<Rightarrow> (c, if chanSend E ch msg then Handled None else Blocked)
      | SendOn ch \<Rightarrow> (c, if chanSend E ch msg then Handled None else Blocked)
      | ByEvent \<Rightarrow> eventSwitch E msg c)"

text \<open>
  \<^verbatim>\<open>HandlePayload\<close>: deserialise and run \<^verbatim>\<open>handleMessage\<close>. The call is recorded in the
  log of dispatched payloads. The pre-ack queue is a private field that only
  \<^verbatim>\<open>handleACK\<close> (line 280) and \<^verbatim>\<open>handleQueue\<close> (line 296) assign, on the reader's own
  goroutine, so whatever the handlers do, the queue and the log come back as they were.
\<close>

definition HandlePayload :: "env \<Rightarrow> conn \<Rightarrow> bytes \<Rightarrow> conn \<times> dispatch_end" where
  "HandlePayload E c payload =
     (let c1 = c\<lparr>handled := handled c @ [payload]\<rparr>;
          msg = deserializeMessage E payload (allowNativeMessages c1)
                  (shouldHandleOnlyNativeMessages c1)
      in case handleMessage E c1 msg of
           (d, r) \<Rightarrow> (d\<lparr>queue := queue c1, handled := handled c1\<rparr>, r))"

text \<open>
  \<^verbatim>\<open>handleQueue\<close>: the loop over the frames that are queued when it starts, each
  dispatched with its returned error dropped; a dispatch that panics or does not come
  back ends the loop there. After the loop, \<^verbatim>\<open>c.queue = c.queue[0:0]\<close>.
\<close>

fun handleQueue_range :: "env \<Rightarrow> bytes list \<Rightarrow> conn \<Rightarrow> conn \<times> dispatch_end" where
  "handleQueue_range E [] c = (c, Handled None)"
| "handleQueue_range E (b # bs) c =
     (case HandlePayload E c b of
        (d, Handled _) \<Rightarrow> handleQueue_range E bs d
      | (d, Panic) \<Rightarrow> (d, Panic)
      | (d, Blocked) \<Rightarrow> (d, Blocked))"

definition handleQueue :: "env \<Rightarrow> conn \<Rightarrow> conn \<times> dispatch_end" where
  "handleQueue E c =
     (case handleQueue_range E (queue c) c of
        (d, Handled _) \<Rightarrow> (d\<lparr>queue := []\<rparr>, Handled None)
      | (d, Panic) \<Rightarrow> (d, Panic)
      | (d, Blocked) \<Rightarrow> (d, Blocked))"

text \<open>
  What a call of \<^verbatim>\<open>handleACK\<close> comes to: the run-time panic of \<^verbatim>\<open>b[0]\<close> on an empty
  slice, the reader suspended in \<^verbatim>\<open>readiness.wait()\<close> on a latch nobody has resolved yet,
  a panic or a wait without end inside the dispatch of a queued frame, or the returned
  boolean.
\<close>

datatype ack_return =
  IndexOutOfRange | AwaitReadiness | DispatchPanic | DispatchBlocked | Returns bool

definition handleACK :: "env \<Rightarrow> conn \<Rightarrow> bytes \<Rightarrow> conn \<times> ack_return" where
  "handleACK E c b =
     (case b of
        [] \<Rightarrow> (c, IndexOutOfRange)
      | typ # rest \<Rightarrow>
          if typ = ackBinary then
            (case readiness c of
               Pending \<Rightarrow> (c, AwaitReadiness)
             | Resolved (Some err) \<Rightarrow>
                 (fst (write_conn E c (ackNotOKBinary # err) False), Returns False)
             | Resolved None \<Rightarrow>
                 (case handleQueue E (c\<lparr>acknowledged := 1\<rparr>) of
                    (c2, Handled _) \<Rightarrow>
                      (case write_conn E c2 (ackIDBinary # id_conn c2) False of
                         (c3, ok) \<Rightarrow> (c3, Returns ok))
                  | (c2, Panic) \<Rightarrow> (c2, DispatchPanic)
                  | (c2, Blocked) \<Rightarrow> (c2, DispatchBlocked)))
          else if typ = ackIDBinary then
            (unwait None (c\<lparr>id_conn := rest, acknowledged := 1\<rparr>), Returns True)
          else if typ = ackNotOKBinary then
            (unwait (Some rest) c, Returns False)
          else (c\<lparr>queue := queue c @ [b]\<rparr>, Returns True))"

text \<open>
  The reader. The socket is the list of what its \<^verbatim>\<open>ReadData\<close> calls return, in order: a
  frame, or an error (by its text). When the list is used up the reader is inside the
  next \<^verbatim>\<open>ReadData\<close>. The deferred \<^verbatim>\<open>Close\<close> runs on every way out, a panic included:
  \<open>Panicked\<close> is the index panic of \<^verbatim>\<open>handleACK\<close>, \<open>Crashed\<close> a panic inside a dispatch.
  \<open>Suspended\<close> is the reader waiting inside a call. A reader suspended on the latch goes
  on when another goroutine resolves it, which is the loop run again from the same frame
  on the connection with the latch resolved.
\<close>

datatype read_data = Data bytes | ReadError string

datatype reader_status = Reading | Suspended | Exited | Panicked | Crashed

fun readerLoop :: "env \<Rightarrow> read_data list \<Rightarrow> conn \<Rightarrow> conn \<times> reader_status" where
  "readerLoop E [] c = (c, Reading)"
| "readerLoop E (ReadError err # rs) c = (Close E (unwait (Some err) c), Exited)"
| "readerLoop E (Data b # rs) c =
     (if length b = 0 then readerLoop E rs c
      else if \<not> isAcknowledged c then
        (case handleACK E c b of
           (c1, IndexOutOfRange) \<Rightarrow> (Close E c1, Panicked)
         | (c1, AwaitReadiness) \<Rightarrow> (c1, Suspended)
         | (c1, DispatchPanic) \<Rightarrow> (Close E c1, Crashed)
         | (c1, DispatchBlocked) \<Rightarrow> (c1, Suspended)
         | (c1, Returns False) \<Rightarrow> (Close E c1, Exited)
         | (c1, Returns True) \<Rightarrow> readerLoop E rs c1)
      else
        (case HandlePayload E c b of
           (c1, Handled _) \<Rightarrow> readerLoop E rs c1
         | (c1, Panic) \<Rightarrow> (Close E c1, Crashed)
         | (c1, Blocked) \<Rightarrow> (c1, Suspended)))"

definition startReader :: "env \<Rightarrow> read_data list \<Rightarrow> conn \<Rightarrow> conn \<times> reader_status" where
  "startReader E rs c = (if IsClosed c then (c, Exited) else readerLoop E rs c)"

subsection \<open>The server-side wait of Connect\<close>

text \<open>\<^verbatim>\<open>time.Duration\<close> counts nanoseconds; no operation below leaves the range of int64.\<close>

definition millisecond :: int where "millisecond = 1000000"
definition second :: int where "second = 1000000000"
definition syncWaitDur :: int where "syncWaitDur = 15 * millisecond"
definition maxSyncWaitDur :: int where "maxSyncWaitDur = 10 * second"

text \<open>
  The loop \<^verbatim>\<open>for !c.isAcknowledged() { ... }\<close> of \<^verbatim>\<open>Connect\<close>. The two flags are written by
  other goroutines while this one sleeps: \<open>ack n\<close> and \<open>cl n\<close> are what \<^verbatim>\<open>isAcknowledged()\<close>
  and \<^verbatim>\<open>IsClosed()\<close> return after \<open>n\<close> sleeps. \<open>t1\<close> is \<open>t\<close> after the assignment
  \<^verbatim>\<open>t = -syncWaitDur\<close>. The loop may go on for ever, so it takes fuel
  (one unit per test of the loop condition) and \<open>None\<close> is "still polling". A result comes
  with the number of sleeps made.
\<close>

datatype wait_outcome = Proceed | Failed error

fun Connect_poll ::
  "nat \<Rightarrow> (nat \<Rightarrow> bool) \<Rightarrow> (nat \<Rightarrow> bool) \<Rightarrow> nat \<Rightarrow> int \<Rightarrow> (wait_outcome \<times> nat) option" where
  "Connect_poll 0 ack cl n t = None"
| "Connect_poll (Suc fuel) ack cl n t =
     (if ack n then Some (Proceed, n)
      else
        let n1 = Suc n;
            t1 = - syncWaitDur
        in if t1 \<le> maxSyncWaitDur div 2 \<and> cl n1 then Some (Failed ErrWrite, n1)
           else if t1 = 0 then
             (if cl n1 then Some (Failed ErrWrite, n1) else Some (Failed DeadlineExceeded, n1))
           else Connect_poll fuel ack cl n1 t1)"

text \<open>
  \<^verbatim>\<open>Connect\<close> up to its last line: on a server-side connection resolve the latch and wait
  for the acknowledgement; \<open>Proceed\<close> is reaching \<^verbatim>\<open>return c.askConnect(ctx, namespace)\<close>.
\<close>

definition Connect_wait ::
  "nat \<Rightarrow> (nat \<Rightarrow> bool) \<Rightarrow> (nat \<Rightarrow> bool) \<Rightarrow> conn \<Rightarrow> conn \<times> (wait_outcome \<times> nat) option" where
  "Connect_wait fuel ack cl c =
     (if \<not> IsClient c then (unwait None c, Connect_poll fuel ack cl 0 maxSyncWaitDur)
      else (c, Some (Proceed, 0)))"

subsection \<open>Ask and the waiter registry\<close>

text \<open>
  A context, as far as \<^verbatim>\<open>Ask\<close> reads it before blocking: its deadline, if it has one.
  The nil context is \<open>None\<close>. Times are nanoseconds.
\<close>

record go_context =
  deadline :: "int option"

text \<open>
  \<^verbatim>\<open>Ask\<close> either returns a message and an error (\<open>None\<close> is nil), or it is blocked in
  its \<^verbatim>\<open>select\<close>, holding its wait-token and the channel it made.
\<close>

datatype ask_status = Returned message "error option" | Selecting string nat

text \<open>
  \<^verbatim>\<open>Ask\<close> from its first line to the \<^verbatim>\<open>select\<close>; \<open>now\<close> is what \<^verbatim>\<open>time.Now()\<close> returns.
\<close>

definition Ask_enter ::
  "env \<Rightarrow> int \<Rightarrow> go_context option \<Rightarrow> conn \<Rightarrow> message \<Rightarrow> conn \<times> ask_status" where
  "Ask_enter E now ctx c msg =
     (if shouldHandleOnlyNativeMessages c then (c, Returned zeroMessage None)
      else if IsClosed c then (c, Returned msg (Some (CloseError (- 1) ErrWrite)))
      else
        let msg1 = msg\<lparr>wait := genWait E (IsClient c) (waitSeq c)\<rparr>;
            c1 = c\<lparr>waitSeq := Suc (waitSeq c)\<rparr>
        in if (case ctx of
                 None \<Rightarrow> False
               | Some x \<Rightarrow> (case deadline x of None \<Rightarrow> False | Some d \<Rightarrow> d < now + (- 1) * second))
           then (c1, Returned zeroMessage (Some DeadlineExceeded))
           else
             let ch = nextChan c1;
                 c2 = c1\<lparr>nextChan := Suc ch,
                        waitingMessages := AList.update (wait msg1) ch (waitingMessages c1)\<rparr>;
                 (c3, ok) = Write E c2 msg1
             in if \<not> ok then (c3, Returned zeroMessage (Some ErrWrite))
                else (c3, Selecting (wait msg1) ch))"

text \<open>
  The two cases of the \<^verbatim>\<open>select\<close>: the context is done and \<^verbatim>\<open>ctx.Err()\<close> is the given
  error, or a message is received from the channel.
\<close>

datatype select_case = CtxDone error | Received message

fun Ask_select :: "conn \<Rightarrow> string \<Rightarrow> select_case \<Rightarrow> conn \<times> ask_status" where
  "Ask_select c w (CtxDone e) =
     (if IsClosed c then (c, Returned zeroMessage (Some ErrWrite))
      else (c, Returned zeroMessage (Some e)))"
| "Ask_select c w (Received receive) =
     (c\<lparr>waitingMessages := AList.delete w (waitingMessages c)\<rparr>, Returned receive (Err receive))"

text \<open>
  One \<^verbatim>\<open>Ask\<close> among the other goroutines. The state is the connection and the status of
  the \<^verbatim>\<open>Ask\<close>; an event is one of: its context becomes done, the reader runs
  \<^verbatim>\<open>handleMessage\<close> on an inbound message, some goroutine calls \<^verbatim>\<open>Close\<close>. The channel is
  unbuffered, so \<^verbatim>\<open>ch <- msg\<close> in the reader and \<^verbatim>\<open>receive := <-ch\<close> in \<^verbatim>\<open>Ask\<close> are one
  event. The nil context has become \<^verbatim>\<open>context.TODO()\<close>, which is never done. What
  \<^verbatim>\<open>handleMessage\<close> does with a message it does not send on this channel is not modelled
  (the event switch, and the reader waiting on a channel nobody receives from); a
  \<^verbatim>\<open>Close\<close> it leads to is a \<open>CloseCalled\<close> of its own.
\<close>

datatype event = ContextDone error | Inbound message | CloseCalled

fun step :: "env \<Rightarrow> go_context option \<Rightarrow> conn \<times> ask_status \<Rightarrow> event \<Rightarrow> conn \<times> ask_status" where
  "step E ctx (c, st) CloseCalled = (Close E c, st)"
| "step E ctx (c, Returned m e) (ContextDone err) = (c, Returned m e)"
| "step E ctx (c, Selecting w ch) (ContextDone err) =
     (case ctx of
        None \<Rightarrow> (c, Selecting w ch)
      | Some _ \<Rightarrow> Ask_select c w (CtxDone err))"
| "step E ctx (c, Returned m e) (Inbound msg) = (c, Returned m e)"
| "step E ctx (c, Selecting w ch) (Inbound msg) =
     (if handleMessage_route E c msg = SendOn ch then Ask_select c w (Received msg)
      else (c, Selecting w ch))"

definition run ::
  "env \<Rightarrow> go_context option \<Rightarrow> conn \<times> ask_status \<Rightarrow> event list \<Rightarrow> conn \<times> ask_status" where
  "run E ctx s evs = foldl (step E ctx) s evs"

subsection \<open>Concrete inputs\<close>

text \<open>
  One instance of the parameters, for evaluating the model on concrete inputs: the event
  names of the package, the predicates as tests of the event name, a serializer that
  joins the fields with semicolons, a deserializer that takes every payload for a native
  message where native messages are allowed and for an invalid one elsewhere, tokens made
  of the side and the count, a socket whose writes all succeed, handlers that return nil
  and change nothing, and channels whose receivers are there.
\<close>

fun digits :: "nat \<Rightarrow> string" where
  "digits 0 = []"
| "digits (Suc n) = CHR ''i'' # digits n"

definition env0 :: env where
  "env0 = \<lparr>OnNamespaceDisconnect = ''_OnNamespaceDisconnect'',
     isConnect = (\<lambda>m. Event m = ''_OnNamespaceConnect''),
     isDisconnect = (\<lambda>m. Event m = ''_OnNamespaceDisconnect''),
     isRoomJoin = (\<lambda>m. Event m = ''_OnRoomJoin''),
     isRoomLeft = (\<lambda>m. Event m = ''_OnRoomLeft''),
     isWait = (\<lambda>m isClient. wait m \<noteq> []),
     serializeMessage = (\<lambda>m. Namespace m @ '';'' @ Room m @ '';'' @ Event m @ '';'' @
        FromExplicit m @ '';'' @ wait m @ '';'' @ Body m),
     deserializeMessage = (\<lambda>b allowNative nativeOnly.
        if allowNative then zeroMessage\<lparr>Body := b, IsNative := True\<rparr>
        else zeroMessage\<lparr>Body := b, isInvalid := True\<rparr>),
     genWait = (\<lambda>isClient n. (if isClient then ''c'' else ''s'') @ digits n),
     socketWrite = (\<lambda>n. WriteOk),
     fireEvent = (\<lambda>ns m c. (c, Handled None)),
     chanSend = (\<lambda>ch m. True),
     eventSwitch = (\<lambda>m c. (c, Handled None))\<rparr>"

text \<open>A connection as \<^verbatim>\<open>newConn\<close> makes it on a client when it is not native-only.\<close>

definition newConn0 :: conn where
  "newConn0 = \<lparr>id_conn = [], serverConnID = [], server = None, readiness = Pending,
     acknowledged = 0, connectedNamespaces = [], waitingMessages = [],
     allowNativeMessages = False, shouldHandleOnlyNativeMessages = False, queue = [],
     closed = 0, nextChan = 0, waitSeq = 0, socketWrites = [], fired = [], forceLeft = [],
     handled = [], netConnClosed = 0, closeChClosed = 0, serverDisconnects = 0\<rparr>"

text \<open>
  The native-only connection of \<^verbatim>\<open>newConn\<close>: the empty namespace installed, acknowledged,
  readiness resolved.
\<close>

definition nativeConn0 :: conn where
  "nativeConn0 = newConn0\<lparr>allowNativeMessages := True, shouldHandleOnlyNativeMessages := True,
     connectedNamespaces := [([], \<lparr>namespace = [], rooms = []\<rparr>)],
     acknowledged := 1, readiness := Resolved None\<rparr>"

text \<open>An acknowledged client connected to the namespace \<open>chat\<close>.\<close>

definition clientConn0 :: conn where
  "clientConn0 = newConn0\<lparr>id_conn := ''id1'', acknowledged := 1, readiness := Resolved None,
     connectedNamespaces := [(''chat'', \<lparr>namespace = ''chat'', rooms = [''lobby'']\<rparr>)]\<rparr>"

text \<open>An acknowledged server-side connection with two namespaces.\<close>

definition serverConn0 :: conn where
  "serverConn0 = newConn0\<lparr>id_conn := ''id1'', serverConnID := ''srv1'', server := Some [],
     acknowledged := 1, readiness := Resolved None,
     connectedNamespaces := [(''chat'', \<lparr>namespace = ''chat'', rooms = [''lobby'']\<rparr>),
                             (''news'', \<lparr>namespace = ''news'', rooms = []\<rparr>)]\<rparr>"

definition chatMsg :: message where
  "chatMsg = zeroMessage\<lparr>Namespace := ''chat'', Event := ''say'', Body := ''hello''\<rparr>"

definition nativeMsg :: message where
  "nativeMsg = zeroMessage\<lparr>Body := ''hi'', IsNative := True\<rparr>"

text \<open>A server-side connection after upgrade: readiness resolved, no \<open>M\<close> received yet.\<close>

definition serverNew0 :: conn where
  "serverNew0 = newConn0\<lparr>id_conn := ''id7'', serverConnID := ''srv1'', server := Some [],
     readiness := Resolved None\<rparr>"

text \<open>
  A reply to the first token of a client, and \<open>clientConn0\<close> as \<^verbatim>\<open>Ask\<close> leaves it when
  it blocks on \<open>chatMsg\<close>: the token registered under channel 0, the message written.
\<close>

definition replyMsg :: message where
  "replyMsg = zeroMessage\<lparr>Namespace := ''chat'', Event := ''say'', wait := ''c''\<rparr>"

definition askedConn0 :: conn where
  "askedConn0 = clientConn0\<lparr>waitSeq := 1, nextChan := 1, waitingMessages := [(''c'', 0)],
     socketWrites := [(''chat;;say;;c;hello'', False)]\<rparr>"

section \<open>Properties\<close>

subsection \<open>Close in closed form\<close>

declare Close_namespaces.simps [simp del] Close_waiting.simps [simp del]

lemma Close_namespaces_eq:
  "Close_namespaces E c =
     c\<lparr>forceLeft := forceLeft c @
          map (\<lambda>(name, ns). (namespace ns, True)) (AList.clearjunk (connectedNamespaces c)),
       fired := fired c @
          map (\<lambda>(name, ns). (name, disconnectMsg E ns)) (AList.clearjunk (connectedNamespaces c)),
       connectedNamespaces := []\<rparr>"
proof (induction E c rule: Close_namespaces.induct)
  case (1 E c)
  show ?case
  proof (cases "connectedNamespaces c")
    case Nil
    then show ?thesis by (subst Close_namespaces.simps) simp
  next
    case (Cons p rest)
    obtain name ns where p: "p = (name, ns)" by (cases p)
    have ih: "Close_namespaces E
            (c\<lparr>forceLeft := forceLeft c @ [(namespace ns, True)],
               fired := fired c @ [(name, disconnectMsg E ns)],
               connectedNamespaces := AList.delete name (connectedNamespaces c)\<rparr>) = 
          (c\<lparr>forceLeft := forceLeft c @ [(namespace ns, True)],
               fired := fired c @ [(name, disconnectMsg E ns)],
               connectedNamespaces := AList.delete name (connectedNamespaces c)\<rparr>)
           \<lparr>forceLeft := (forceLeft c @ [(namespace ns, True)]) @
          map (\<lambda>(name, ns). (namespace ns, True)) (AList.clearjunk (AList.delete name (connectedNamespaces c))),
       fired := (fired c @ [(name, disconnectMsg E ns)]) @
          map (\<lambda>(name, ns). (name, disconnectMsg E ns)) (AList.clearjunk (AList.delete name (connectedNamespaces c))),
       connectedNamespaces := []\<rparr>"
      using "1.IH"[OF Cons[unfolded p] refl] by simp
    have stp: "Close_namespaces E c = Close_namespaces E
            (c\<lparr>forceLeft := forceLeft c @ [(namespace ns, True)],
               fired := fired c @ [(name, disconnectMsg E ns)],
               connectedNamespaces := AList.delete name (connectedNamespaces c)\<rparr>)"
      by (subst Close_namespaces.simps) (simp add: Cons p)
    show ?thesis
      unfolding stp ih by (simp add: Cons p)
  qed
qed

lemma Close_waiting_Nil: "Close_waiting m = []"
proof (induction m rule: Close_waiting.induct)
  case (1 m)
  show ?case
  proof (cases m)
    case Nil
    then show ?thesis by (subst Close_waiting.simps) simp
  next
    case (Cons p rest)
    obtain w ch where p: "p = (w, ch)" by (cases p)
    from "1.IH"[OF Cons[unfolded p] refl] show ?thesis
      by (subst Close_waiting.simps) (simp add: Cons p)
  qed
qed


lemma Close_closed: "closed c \<noteq> 0 \<Longrightarrow> Close E c = c"
  by (simp add: Close_def)

lemma Close_open:
  "closed c = 0 \<Longrightarrow> \<not> shouldHandleOnlyNativeMessages c \<Longrightarrow>
   Close E c =
     c\<lparr>closed := 1,
       forceLeft := forceLeft c @
          map (\<lambda>(name, ns). (namespace ns, True)) (AList.clearjunk (connectedNamespaces c)),
       fired := fired c @
          map (\<lambda>(name, ns). (name, disconnectMsg E ns)) (AList.clearjunk (connectedNamespaces c)),
       connectedNamespaces := [],
       waitingMessages := [],
       acknowledged := 0,
       serverDisconnects := (if IsClient c then serverDisconnects c else Suc (serverDisconnects c)),
       closeChClosed := Suc (closeChClosed c),
       netConnClosed := Suc (netConnClosed c)\<rparr>"
  by (simp add: Close_def Let_def Close_namespaces_eq Close_waiting_Nil IsClient_def)

lemma Close_open_native:
  "closed c = 0 \<Longrightarrow> shouldHandleOnlyNativeMessages c \<Longrightarrow>
   Close E c =
     c\<lparr>closed := 1,
       acknowledged := 0,
       serverDisconnects := (if IsClient c then serverDisconnects c else Suc (serverDisconnects c)),
       closeChClosed := Suc (closeChClosed c),
       netConnClosed := Suc (netConnClosed c)\<rparr>"
  by (simp add: Close_def Let_def IsClient_def)

lemma Close_cases:
  obtains (shut) "closed c \<noteq> 0" "Close E c = c"
  | (full) "closed c = 0" "\<not> shouldHandleOnlyNativeMessages c"
  | (native) "closed c = 0" "shouldHandleOnlyNativeMessages c"
  using Close_closed by blast

lemma Close_keeps:
  "socketWrites (Close E c) = socketWrites c"
  "handled (Close E c) = handled c"
  "queue (Close E c) = queue c"
  "id_conn (Close E c) = id_conn c"
  "serverConnID (Close E c) = serverConnID c"
  "server (Close E c) = server c"
  "readiness (Close E c) = readiness c"
  "shouldHandleOnlyNativeMessages (Close E c) = shouldHandleOnlyNativeMessages c"
  "allowNativeMessages (Close E c) = allowNativeMessages c"
  "nextChan (Close E c) = nextChan c"
  "waitSeq (Close E c) = waitSeq c"
  by (rule Close_cases[of c E]; simp add: Close_open Close_open_native)+

lemma unwait_keeps:
  "socketWrites (unwait r c) = socketWrites c"
  "id_conn (unwait r c) = id_conn c"
  "serverConnID (unwait r c) = serverConnID c"
  "server (unwait r c) = server c"
  "closed (unwait r c) = closed c"
  "connectedNamespaces (unwait r c) = connectedNamespaces c"
  "waitingMessages (unwait r c) = waitingMessages c"
  "queue (unwait r c) = queue c"
  "handled (unwait r c) = handled c"
  "acknowledged (unwait r c) = acknowledged c"
  "shouldHandleOnlyNativeMessages (unwait r c) = shouldHandleOnlyNativeMessages c"
  by (simp_all add: unwait_def split: latch.splits)

lemma canWrite_keeps:
  "socketWrites (fst (canWrite E c msg)) = socketWrites c"
  "closed (fst (canWrite E c msg)) = closed c"
  "waitingMessages (fst (canWrite E c msg)) = waitingMessages c"
  "shouldHandleOnlyNativeMessages (fst (canWrite E c msg)) = shouldHandleOnlyNativeMessages c"
  by (simp_all add: canWrite_def Let_def unwait_keeps)

lemma write_conn_socketWrites:
  "socketWrites (fst (write_conn E c b binary)) = socketWrites c @ [(b, binary)]"
  by (simp add: write_conn_def Let_def Close_keeps split: write_result.splits)

subsection \<open>Write\<close>

text \<open>
  C10. A message that passes the write gate is written once, as the serialization of the
  message with \<open>FromExplicit\<close> set to the empty string and every other field as the caller
  gave it, under the message's own binary flag: the frame does not depend on the
  \<open>FromExplicit\<close> the caller supplied.
\<close>

theorem Write_clears_FromExplicit:
  assumes "snd (canWrite E c msg)"
  shows "socketWrites (fst (Write E c msg)) =
           socketWrites c @ [(serializeMessage E (msg\<lparr>FromExplicit := []\<rparr>), SetBinary msg)]"
proof -
  obtain c1 where cw: "canWrite E c msg = (c1, True)"
    using assms by (cases "canWrite E c msg") auto
  have "socketWrites c1 = socketWrites c"
    using canWrite_keeps(1)[of E c msg] cw by simp
  then show ?thesis
    by (simp add: Write_def cw Let_def write_conn_socketWrites)
qed

theorem Write_clears_FromExplicit_witness:
  "snd (canWrite env0 clientConn0 (chatMsg\<lparr>FromExplicit := ''id2''\<rparr>)) \<and>
   socketWrites (fst (Write env0 clientConn0 (chatMsg\<lparr>FromExplicit := ''id2''\<rparr>))) =
     [(''chat;;say;;;hello'', False)]"
proof -
  have h: "snd (canWrite env0 clientConn0 (chatMsg\<lparr>FromExplicit := ''id2''\<rparr>))"
    by (simp add: canWrite_def env0_def clientConn0_def newConn0_def chatMsg_def zeroMessage_def
        IsClosed_def IsClient_def Is_def)
  show ?thesis
    using h Write_clears_FromExplicit[OF h]
    by (simp add: env0_def clientConn0_def newConn0_def chatMsg_def zeroMessage_def)
qed

text \<open>
  C8, amended. A message whose \<open>FromExplicit\<close> is not empty and equals the connection's
  own ID (\<open>id\<close> on a client, \<open>serverConnID\<close> on a server) is suppressed: \<^verbatim>\<open>Write\<close>
  returns false and calls no write method of the socket.
\<close>

theorem Write_self_exclusion:
  assumes "FromExplicit msg \<noteq> []"
    and "FromExplicit msg = (if IsClient c then id_conn c else serverConnID c)"
  shows "snd (Write E c msg) = False \<and> socketWrites (fst (Write E c msg)) = socketWrites c"
proof -
  have "Is (unwait r c) (FromExplicit msg)" for r
    using assms by (simp add: Is_def IsClient_def unwait_keeps)
  moreover have "Is c (FromExplicit msg)"
    using assms by (simp add: Is_def)
  ultimately have "\<not> snd (canWrite E c msg)"
    by (simp add: canWrite_def Let_def)
  then obtain c1 where cw: "canWrite E c msg = (c1, False)"
    by (cases "canWrite E c msg") auto
  have "socketWrites c1 = socketWrites c"
    using canWrite_keeps(1)[of E c msg] cw by simp
  then show ?thesis by (simp add: Write_def cw)
qed

theorem Write_self_exclusion_witness:
  "FromExplicit (chatMsg\<lparr>FromExplicit := ''id1''\<rparr>) \<noteq> [] \<and>
   FromExplicit (chatMsg\<lparr>FromExplicit := ''id1''\<rparr>) = id_conn clientConn0 \<and>
   snd (Write env0 clientConn0 (chatMsg\<lparr>FromExplicit := ''id1''\<rparr>)) = False \<and>
   socketWrites (fst (Write env0 clientConn0 (chatMsg\<lparr>FromExplicit := ''id1''\<rparr>))) = []"
  using Write_self_exclusion[of "chatMsg\<lparr>FromExplicit := ''id1''\<rparr>" clientConn0 env0]
  by (simp add: clientConn0_def newConn0_def IsClient_def)

text \<open>
  C8 as stated fails where the ID is empty, since \<^verbatim>\<open>Is\<close> answers false to the empty
  string: a native-only client keeps the empty ID, a message with the default
  \<open>FromExplicit\<close> equals it, and the message is written.
\<close>

theorem Write_empty_id_counterexample:
  "IsClient nativeConn0 \<and> FromExplicit nativeMsg = id_conn nativeConn0 \<and>
   snd (Write env0 nativeConn0 nativeMsg) = True \<and>
   socketWrites (fst (Write env0 nativeConn0 nativeMsg)) = [('';;;;;hi'', False)]"
  by (simp add: Write_def canWrite_def write_conn_def Let_def env0_def nativeConn0_def newConn0_def
      nativeMsg_def zeroMessage_def IsClosed_def IsClient_def Is_def)

subsection \<open>Ask before it blocks\<close>

text \<open>
  C6, amended. \<^verbatim>\<open>Ask\<close> does not run on a native-only or closed connection, and leaves
  the connection as it was: no waiter slot is registered and nothing is written. On a
  native-only connection it returns the empty message and no error; on a closed one that
  is not native-only it returns the message with a close error of code -1 around the
  write error.
\<close>

theorem Ask_refuses:
  assumes "shouldHandleOnlyNativeMessages c \<or> IsClosed c"
  shows "fst (Ask_enter E now ctx c msg) = c \<and>
         snd (Ask_enter E now ctx c msg) =
           (if shouldHandleOnlyNativeMessages c then Returned zeroMessage None
            else Returned msg (Some (CloseError (- 1) ErrWrite)))"
  using assms by (auto simp: Ask_enter_def)

theorem Ask_refuses_witness:
  "shouldHandleOnlyNativeMessages nativeConn0 \<and>
   Ask_enter env0 0 None nativeConn0 nativeMsg = (nativeConn0, Returned zeroMessage None) \<and>
   IsClosed (clientConn0\<lparr>closed := 1\<rparr>) \<and>
   Ask_enter env0 0 None (clientConn0\<lparr>closed := 1\<rparr>) chatMsg =
     (clientConn0\<lparr>closed := 1\<rparr>, Returned chatMsg (Some (CloseError (- 1) ErrWrite)))"
proof -
  have n: "shouldHandleOnlyNativeMessages nativeConn0"
    by (simp add: nativeConn0_def newConn0_def)
  have k: "IsClosed (clientConn0\<lparr>closed := 1\<rparr>)"
    by (simp add: IsClosed_def)
  have m: "\<not> shouldHandleOnlyNativeMessages (clientConn0\<lparr>closed := 1\<rparr>)"
    by (simp add: clientConn0_def newConn0_def)
  show ?thesis
    using n k m
      Ask_refuses[of nativeConn0 env0 0 None nativeMsg]
      Ask_refuses[of "clientConn0\<lparr>closed := 1\<rparr>" env0 0 None chatMsg]
    by (simp add: prod_eq_iff)
qed

text \<open>
  C6 as stated fails on a native-only connection: what \<^verbatim>\<open>Ask\<close> returns there is
  \<^verbatim>\<open>Message{}, nil\<close>, not an error.
\<close>

theorem Ask_native_only_counterexample:
  "shouldHandleOnlyNativeMessages nativeConn0 \<and>
   snd (Ask_enter env0 0 None nativeConn0 nativeMsg) = Returned zeroMessage None"
  by (simp add: Ask_enter_def nativeConn0_def newConn0_def)

text \<open>
  C7, amended. On a connection that is neither native-only nor closed, for every non-nil
  context whose deadline is more than one second before the time of the call, \<^verbatim>\<open>Ask\<close>
  returns deadline-exceeded with the registry and the socket untouched.
\<close>

theorem Ask_deadline_passed:
  assumes "\<not> shouldHandleOnlyNativeMessages c" and "\<not> IsClosed c"
    and "deadline x = Some d" and "d < now - second"
  shows "snd (Ask_enter E now (Some x) c msg) = Returned zeroMessage (Some DeadlineExceeded) \<and>
         waitingMessages (fst (Ask_enter E now (Some x) c msg)) = waitingMessages c \<and>
         socketWrites (fst (Ask_enter E now (Some x) c msg)) = socketWrites c"
  using assms by (simp add: Ask_enter_def Let_def)

theorem Ask_deadline_passed_witness:
  "\<not> shouldHandleOnlyNativeMessages clientConn0 \<and> \<not> IsClosed clientConn0 \<and>
   deadline \<lparr>deadline = Some 0\<rparr> = Some 0 \<and> (0::int) < 5 * second - second \<and>
   Ask_enter env0 (5 * second) (Some \<lparr>deadline = Some 0\<rparr>) clientConn0 chatMsg =
     (clientConn0\<lparr>waitSeq := 1\<rparr>, Returned zeroMessage (Some DeadlineExceeded))"
proof -
  have a: "\<not> shouldHandleOnlyNativeMessages clientConn0" "\<not> IsClosed clientConn0"
    by (simp_all add: clientConn0_def newConn0_def IsClosed_def)
  have b: "deadline \<lparr>deadline = Some 0\<rparr> = Some 0" "(0::int) < 5 * second - second"
    by (simp_all add: second_def)
  have f: "fst (Ask_enter env0 (5 * second) (Some \<lparr>deadline = Some 0\<rparr>) clientConn0 chatMsg) =
      clientConn0\<lparr>waitSeq := 1\<rparr>"
    by (simp add: Ask_enter_def Let_def clientConn0_def newConn0_def IsClosed_def second_def)
  show ?thesis
    using a b f Ask_deadline_passed[OF a b, of env0 chatMsg]
    by (simp add: prod_eq_iff)
qed

text \<open>
  C7 as stated fails on a closed connection: the test of the close flag comes first, and
  the same context gets the close error.
\<close>

theorem Ask_deadline_closed_counterexample:
  "deadline \<lparr>deadline = Some 0\<rparr> = Some 0 \<and> (0::int) < 5 * second - second \<and>
   snd (Ask_enter env0 (5 * second) (Some \<lparr>deadline = Some 0\<rparr>) (clientConn0\<lparr>closed := 1\<rparr>) chatMsg) =
     Returned chatMsg (Some (CloseError (- 1) ErrWrite))"
  by (simp add: Ask_enter_def clientConn0_def newConn0_def IsClosed_def second_def)

subsection \<open>The reader and the first byte\<close>

lemma handleACK_panic_iff: "(snd (handleACK E c b) = IndexOutOfRange) = (b = [])"
  by (cases b)
     (auto simp: handleACK_def Let_def
       split: latch.splits option.splits prod.splits dispatch_end.splits)

lemma readerLoop_no_panic: "snd (readerLoop E rs c) \<noteq> Panicked"
proof (induction E rs c rule: readerLoop.induct)
  case (1 E c)
  show ?case by simp
next
  case (2 E err rs c)
  show ?case by simp
next
  case (3 E b rs c)
  show ?case
  proof (cases "length b = 0")
    case True
    with 3 show ?thesis by simp
  next
    case nonempty: False
    show ?thesis
    proof (cases "isAcknowledged c")
      case True
      obtain c1 r where h: "HandlePayload E c b = (c1, r)" by (cases "HandlePayload E c b")
      show ?thesis
      proof (cases r)
        case (Handled e)
        then show ?thesis
          using "3.IH"(3)[OF nonempty _ h[symmetric] Handled] True nonempty h by simp
      next
        case Panic
        then show ?thesis using True nonempty h by simp
      next
        case Blocked
        then show ?thesis using True nonempty h by simp
      qed
    next
      case False
      obtain c1 r where h: "handleACK E c b = (c1, r)" by (cases "handleACK E c b")
      have "r \<noteq> IndexOutOfRange"
        using handleACK_panic_iff[of E c b] nonempty h by auto
      then show ?thesis
        using "3.IH"(2)[OF nonempty False h[symmetric]] nonempty False h
        by (cases r) (auto split: bool.splits)
    qed
  qed
qed

text \<open>
  C9. \<^verbatim>\<open>handleACK\<close> reads \<^verbatim>\<open>b[0]\<close> unguarded: it panics on the empty slice and on no
  other. The reader never gets there: whatever the socket returns, read after read, and
  whatever state the connection is in, the reader does not end in that panic, because a
  read of length zero is skipped before the acknowledgement path.
\<close>

theorem reader_first_byte_in_range:
  "(snd (handleACK E c b) = IndexOutOfRange) = (b = []) \<and>
   snd (startReader E rs c) \<noteq> Panicked"
  by (simp add: handleACK_panic_iff startReader_def readerLoop_no_panic)

theorem reader_first_byte_in_range_witness:
  "snd (handleACK env0 newConn0 []) = IndexOutOfRange \<and>
   snd (startReader env0 [Data [], Data ''x'', Data [], Data ''Aid7'', Data []] newConn0) = Reading"
proof -
  have "snd (startReader env0 [Data [], Data ''x'', Data [], Data ''Aid7'', Data []] newConn0) = Reading"
    by (simp add: startReader_def handleACK_def isAcknowledged_def IsClosed_def newConn0_def
        unwait_def ackBinary_def ackIDBinary_def ackNotOKBinary_def)
  then show ?thesis
    using reader_first_byte_in_range[of env0 newConn0 "[]"
        "[Data [], Data ''x'', Data [], Data ''Aid7'', Data []]"]
    by simp
qed

subsection \<open>The wait of Connect\<close>

lemma Connect_poll_stuck: "Connect_poll fuel (\<lambda>_. False) (\<lambda>_. False) n t = None"
  by (induction fuel arbitrary: n t)
     (simp_all add: Let_def syncWaitDur_def millisecond_def)

lemma Connect_poll_no_deadline:
  "Connect_poll fuel ack cl n t \<noteq> Some (Failed DeadlineExceeded, k)"
  by (induction fuel arbitrary: n t)
     (simp_all add: Let_def syncWaitDur_def millisecond_def)

text \<open>
  C2. The claim is that \<^verbatim>\<open>Connect\<close> gives up with deadline-exceeded once about 10 s of
  15 ms sleeps have passed. The code assigns \<^verbatim>\<open>t = -syncWaitDur\<close> where it means to
  subtract, so \<open>t\<close> is -15 ms after every sleep and \<^verbatim>\<open>t == 0\<close> never holds: on a
  server-side connection that is never acknowledged and never closed the wait has not
  returned after any number of polls, and no run of the wait returns deadline-exceeded.
\<close>

theorem Connect_wait_has_no_cap:
  "snd (Connect_wait fuel (\<lambda>_. False) (\<lambda>_. False) (serverConn0\<lparr>acknowledged := 0\<rparr>)) = None \<and>
   snd (Connect_wait fuel ack cl c) \<noteq> Some (Failed DeadlineExceeded, k)"
  by (simp add: Connect_wait_def Connect_poll_stuck Connect_poll_no_deadline
      serverConn0_def newConn0_def IsClient_def)

subsection \<open>Close runs once\<close>

lemma Close_sets_closed: "closed (Close E c) \<noteq> 0"
  by (rule Close_cases[of c E]; simp add: Close_open Close_open_native)

lemma Close_step_7_done: "snd ((Close_step E ^^ 7) (c, pc)) = CloseDone"
  by (cases pc) (simp_all add: eval_nat_numeral)

lemma Close_eq_steps: "Close E c = fst ((Close_step E ^^ 7) (c, AtCAS))"
  by (simp add: eval_nat_numeral Close_def Let_def Close_namespaces_eq IsClient_def)

lemma Close_rest_step:
  "fst ((Close_step E ^^ 7) (Close_step E s)) = fst ((Close_step E ^^ 7) s)"
proof -
  obtain c pc where s: "s = (c, pc)" by (cases s)
  obtain d where d: "(Close_step E ^^ 7) (c, pc) = (d, CloseDone)"
    using Close_step_7_done[of E c pc] by (cases "(Close_step E ^^ 7) (c, pc)") simp
  have "(Close_step E ^^ 7) (Close_step E s) = Close_step E ((Close_step E ^^ 7) s)"
    by (simp only: funpow_swap1)
  then show ?thesis by (simp add: s d)
qed

lemma Close_step_closed:
  "closed c \<noteq> 0 \<Longrightarrow> closed (fst (Close_step E (c, pc))) \<noteq> 0"
  by (cases pc) (simp_all add: Close_namespaces_eq)

lemma Close_step_CAS_closed: "closed (fst (Close_step E (c, AtCAS))) \<noteq> 0"
  by simp

lemma Close_step_idle:
  "closed c \<noteq> 0 \<Longrightarrow> pc = AtCAS \<or> pc = CloseDone \<Longrightarrow> Close_step E (c, pc) = (c, CloseDone)"
  by auto

lemma Close_step_netConn_mono:
  "netConnClosed c \<le> netConnClosed (fst (Close_step E (c, pc)))"
  by (cases pc) (simp_all add: Close_namespaces_eq)

lemma Close_steps_netConn_mono:
  "netConnClosed c \<le> netConnClosed (fst ((Close_step E ^^ k) (c, pc)))"
proof (induction k arbitrary: c pc)
  case 0
  show ?case by simp
next
  case (Suc k)
  obtain d pc' where s: "Close_step E (c, pc) = (d, pc')" by (cases "Close_step E (c, pc)")
  have "netConnClosed c \<le> netConnClosed d"
    using Close_step_netConn_mono[of c E pc] s by simp
  also have "\<dots> \<le> netConnClosed (fst ((Close_step E ^^ k) (d, pc')))"
    by (rule Suc.IH)
  finally show ?case by (simp add: funpow_swap1 s)
qed

lemma Close_netConn_le: "netConnClosed (Close E c) \<le> Suc (netConnClosed c)"
  by (rule Close_cases[of c E]; simp add: Close_open Close_open_native)

lemma Close_callers_snoc:
  "Close_callers E s (sched @ [k]) = Close_caller_step E (Close_callers E s sched) k"
  by (simp add: Close_callers_def)

lemma Close_callers_inv:
  "length (snd (Close_callers E (c0, replicate n AtCAS) sched)) = n \<and>
   ((fst (Close_callers E (c0, replicate n AtCAS) sched) = c0 \<and>
     (\<forall>p \<in> set (snd (Close_callers E (c0, replicate n AtCAS) sched)). p = AtCAS)) \<or>
    (closed (fst (Close_callers E (c0, replicate n AtCAS) sched)) \<noteq> 0 \<and>
     (\<exists>i<n. fst ((Close_step E ^^ 7)
                (fst (Close_callers E (c0, replicate n AtCAS) sched),
                 snd (Close_callers E (c0, replicate n AtCAS) sched) ! i)) = Close E c0 \<and>
        (\<forall>j<n. j \<noteq> i \<longrightarrow>
           snd (Close_callers E (c0, replicate n AtCAS) sched) ! j = AtCAS \<or>
           snd (Close_callers E (c0, replicate n AtCAS) sched) ! j = CloseDone))))"
proof (induction sched rule: rev_induct)
  case Nil
  show ?case by (simp add: Close_callers_def)
next
  case (snoc k sched)
  obtain c pcs where s: "Close_callers E (c0, replicate n AtCAS) sched = (c, pcs)"
    by (cases "Close_callers E (c0, replicate n AtCAS) sched")
  have len: "length pcs = n" using snoc s by simp
  show ?case
  proof (cases "k < n")
    case False
    then show ?thesis
      using snoc s len by (simp add: Close_callers_snoc Close_caller_step_def)
  next
    case True
    obtain d pc where st: "Close_step E (c, pcs ! k) = (d, pc)"
      by (cases "Close_step E (c, pcs ! k)")
    have new: "Close_callers E (c0, replicate n AtCAS) (sched @ [k]) = (d, pcs[k := pc])"
      using True len by (simp add: Close_callers_snoc Close_caller_step_def s st)
    from snoc s consider
      (fresh) "c = c0" "\<forall>p \<in> set pcs. p = AtCAS"
      | (won) i where "closed c \<noteq> 0" "i < n"
          "fst ((Close_step E ^^ 7) (c, pcs ! i)) = Close E c0"
          "\<forall>j<n. j \<noteq> i \<longrightarrow> pcs ! j = AtCAS \<or> pcs ! j = CloseDone"
      by auto
    then have "closed d \<noteq> 0 \<and>
       (\<exists>i<n. fst ((Close_step E ^^ 7) (d, pcs[k := pc] ! i)) = Close E c0 \<and>
          (\<forall>j<n. j \<noteq> i \<longrightarrow> pcs[k := pc] ! j = AtCAS \<or> pcs[k := pc] ! j = CloseDone))"
    proof cases
      case fresh
      have at: "pcs ! k = AtCAS" using fresh(2) True len by simp
      have cl: "closed d \<noteq> 0"
        using Close_step_CAS_closed[of E c] st at by simp
      have "fst ((Close_step E ^^ 7) (d, pc)) = Close E c0"
        using Close_rest_step[of E "(c, AtCAS)"] st at fresh(1) by (simp add: Close_eq_steps)
      moreover have "\<forall>j<n. j \<noteq> k \<longrightarrow> pcs[k := pc] ! j = AtCAS"
        using fresh(2) len by simp
      ultimately show ?thesis
        using cl True len by (intro conjI exI[of _ k]) simp_all
    next
      case won
      show ?thesis
      proof (cases "k = i")
        case True
        have "closed d \<noteq> 0"
          using Close_step_closed[OF won(1), of E "pcs ! k"] st by simp
        moreover have "fst ((Close_step E ^^ 7) (d, pc)) = Close E c0"
          using Close_rest_step[of E "(c, pcs ! i)"] st True won(3) by simp
        ultimately show ?thesis
          using won(2,4) True len by (intro conjI exI[of _ i]) simp_all
      next
        case False
        have idle: "pcs ! k = AtCAS \<or> pcs ! k = CloseDone"
          using won(4) False \<open>k < n\<close> by simp
        have e: "d = c" "pc = CloseDone"
          using Close_step_idle[OF won(1) idle, of E] st by simp_all
        show ?thesis
          using won False e len \<open>k < n\<close>
          by (intro conjI exI[of _ i]) (auto simp: nth_list_update)
      qed
    qed
    then show ?thesis
      unfolding new using len by simp
  qed
qed

lemma Close_step_rank:
  "min 7 (Suc (close_pc_rank pc)) \<le> close_pc_rank (snd (Close_step E (c, pc)))"
  by (cases pc) simp_all

lemma Close_callers_rank:
  "length (snd (Close_callers E (c0, pcs0) sched)) = length pcs0 \<and>
   (\<forall>i < length pcs0.
      min 7 (count_list sched i) \<le> close_pc_rank (snd (Close_callers E (c0, pcs0) sched) ! i))"
proof (induction sched rule: rev_induct)
  case Nil
  show ?case by (simp add: Close_callers_def)
next
  case (snoc k sched)
  obtain c pcs where s: "Close_callers E (c0, pcs0) sched = (c, pcs)"
    by (cases "Close_callers E (c0, pcs0) sched")
  have len: "length pcs = length pcs0" using snoc s by simp
  have ih: "\<forall>i < length pcs0. min 7 (count_list sched i) \<le> close_pc_rank (pcs ! i)"
    using snoc s by simp
  show ?case
  proof (cases "k < length pcs0")
    case False
    then show ?thesis
      using ih len by (simp add: Close_callers_snoc Close_caller_step_def s)
  next
    case True
    obtain d pc where st: "Close_step E (c, pcs ! k) = (d, pc)"
      by (cases "Close_step E (c, pcs ! k)")
    have new: "Close_callers E (c0, pcs0) (sched @ [k]) = (d, pcs[k := pc])"
      using True len by (simp add: Close_callers_snoc Close_caller_step_def s st)
    have r: "min 7 (Suc (close_pc_rank (pcs ! k))) \<le> close_pc_rank pc"
      using Close_step_rank[of "pcs ! k" E c] st by simp
    have "min 7 (count_list (sched @ [k]) i) \<le> close_pc_rank (pcs[k := pc] ! i)"
      if "i < length pcs0" for i
    proof (cases "i = k")
      case True
      have "min 7 (count_list sched k) \<le> close_pc_rank (pcs ! k)"
        using ih that True by simp
      then have "min 7 (Suc (count_list sched k)) \<le> min 7 (Suc (close_pc_rank (pcs ! k)))"
        by simp
      then show ?thesis using r True that len by simp
    next
      case False
      then show ?thesis using ih that len by simp
    qed
    then show ?thesis unfolding new using len by simp
  qed
qed

lemma close_pc_rank_7: "7 \<le> close_pc_rank pc \<Longrightarrow> pc = CloseDone"
  by (cases pc) simp_all

lemma Close_callers_finish:
  assumes "\<forall>i<n. 7 \<le> count_list sched i"
  shows "\<forall>p \<in> set (snd (Close_callers E (c0, replicate n AtCAS) sched)). p = CloseDone"
proof
  fix p assume p: "p \<in> set (snd (Close_callers E (c0, replicate n AtCAS) sched))"
  have len: "length (snd (Close_callers E (c0, replicate n AtCAS) sched)) = n"
    using Close_callers_rank[of E c0 "replicate n AtCAS" sched] by simp
  from p obtain i where i: "i < n" "snd (Close_callers E (c0, replicate n AtCAS) sched) ! i = p"
    using len by (auto simp: in_set_conv_nth)
  have "min 7 (count_list sched i) \<le> close_pc_rank p"
    using Close_callers_rank[of E c0 "replicate n AtCAS" sched] i by auto
  then have "7 \<le> close_pc_rank p" using assms i(1) by simp
  then show "p = CloseDone" by (rule close_pc_rank_7)
qed

lemma Close_callers_result:
  assumes "0 < n"
    and "\<forall>p \<in> set (snd (Close_callers E (c0, replicate n AtCAS) sched)). p = CloseDone"
  shows "fst (Close_callers E (c0, replicate n AtCAS) sched) = Close E c0"
proof -
  obtain c pcs where s: "Close_callers E (c0, replicate n AtCAS) sched = (c, pcs)"
    by (cases "Close_callers E (c0, replicate n AtCAS) sched")
  have len: "length pcs = n" using Close_callers_inv[of E c0 n sched] s by simp
  have all: "\<forall>i<n. pcs ! i = CloseDone" using assms(2) s len by simp
  have "pcs ! 0 = CloseDone" using all assms(1) by simp
  moreover have "pcs ! 0 \<in> set pcs" using assms(1) len by (intro nth_mem) simp
  ultimately have "pcs ! 0 \<in> set pcs" "pcs ! 0 = CloseDone" by simp_all
  then have "\<not> (\<forall>p \<in> set pcs. p = AtCAS)"
    by (metis close_pc.distinct(13))
  then obtain i where "i < n" "fst ((Close_step E ^^ 7) (c, pcs ! i)) = Close E c0"
    using Close_callers_inv[of E c0 n sched] s by auto
  then show ?thesis using all by (simp add: s eval_nat_numeral)
qed

lemma Close_callers_netConn:
  "netConnClosed (fst (Close_callers E (c0, replicate n AtCAS) sched)) \<le> Suc (netConnClosed c0)"
proof -
  obtain c pcs where s: "Close_callers E (c0, replicate n AtCAS) sched = (c, pcs)"
    by (cases "Close_callers E (c0, replicate n AtCAS) sched")
  from Close_callers_inv[of E c0 n sched] s
  consider "c = c0" | i where "fst ((Close_step E ^^ 7) (c, pcs ! i)) = Close E c0"
    by auto
  then show ?thesis
  proof cases
    case 1
    then show ?thesis by (simp add: s)
  next
    case 2
    have "netConnClosed c \<le> netConnClosed (Close E c0)"
      using Close_steps_netConn_mono[where c = c and E = E and k = 7 and pc = "pcs ! i"] 2 by simp
    then show ?thesis using Close_netConn_le[of E c0] by (simp add: s)
  qed
qed


lemma Close_Close: "Close E (Close E c) = Close E c"
  by (rule Close_closed) (rule Close_sets_closed)

lemma Close_funpow: "(Close E ^^ Suc n) c = Close E c"
  by (induction n) (simp_all add: Close_Close)

lemma count_key_distinct:
  "distinct (map fst xs) \<Longrightarrow>
   length (filter (\<lambda>p. fst p = k) xs) = (if k \<in> fst ` set xs then 1 else 0)"
  by (induction xs) (auto simp: image_iff)

lemma count_fired_clearjunk:
  "length (filter (\<lambda>e. fst e = name)
      (map (\<lambda>(name, ns). (name, disconnectMsg E ns)) (AList.clearjunk tbl))) =
   (if map_of tbl name = None then 0 else 1)"
proof -
  have "filter (\<lambda>e. fst e = name) (map (\<lambda>(name, ns). (name, disconnectMsg E ns)) ys) =
        map (\<lambda>(name, ns). (name, disconnectMsg E ns)) (filter (\<lambda>p. fst p = name) ys)" for ys
    by (induction ys) auto
  then have "length (filter (\<lambda>e. fst e = name)
      (map (\<lambda>(name, ns). (name, disconnectMsg E ns)) (AList.clearjunk tbl))) =
      length (filter (\<lambda>p. fst p = name) (AList.clearjunk tbl))"
    by simp
  also have "\<dots> = (if name \<in> fst ` set (AList.clearjunk tbl) then 1 else 0)"
    by (rule count_key_distinct) (rule distinct_clearjunk)
  also have "\<dots> = (if map_of tbl name = None then 0 else 1)"
    by (simp add: dom_clearjunk map_of_eq_None_iff)
  finally show ?thesis .
qed

text \<open>
  C4, amended. Any number of \<^verbatim>\<open>Close\<close> calls comes to one. Called one after the other, a
  call on a connection already closed changes nothing, whatever happened in between.
  Called side by side, in whatever order the callers take their steps, the compare-and-swap
  lets one caller in: the network connection is never closed more than once, every caller
  that takes its seven steps has finished, and when all have finished the connection is
  what a single call leaves. That call closes the network connection once and the close
  channel once, and fires \<open>OnNamespaceDisconnect\<close> (forced, local) exactly once for each
  namespace that is in the NS-table at that moment and for no other, except on a
  native-only connection, where it fires nothing and leaves the NS-table and the registry
  as they are.
\<close>

theorem Close_runs_once:
  "(Close E ^^ Suc n) c = Close E c \<and>
   (closed c \<noteq> 0 \<longrightarrow> Close E c = c) \<and>
   (closed c = 0 \<longrightarrow>
      closed (Close E c) = 1 \<and>
      netConnClosed (Close E c) = Suc (netConnClosed c) \<and>
      closeChClosed (Close E c) = Suc (closeChClosed c) \<and>
      (\<exists>new. fired (Close E c) = fired c @ new \<and>
         (\<forall>e \<in> set new. Event (snd e) = OnNamespaceDisconnect E \<and> IsForced (snd e) \<and>
            IsLocal (snd e)) \<and>
         (\<forall>name. length (filter (\<lambda>e. fst e = name) new) =
            (if shouldHandleOnlyNativeMessages c \<or> map_of (connectedNamespaces c) name = None
             then 0 else 1))) \<and>
      (shouldHandleOnlyNativeMessages c \<longrightarrow>
         connectedNamespaces (Close E c) = connectedNamespaces c \<and>
         waitingMessages (Close E c) = waitingMessages c)) \<and>
   netConnClosed (fst (Close_callers E (c, replicate k AtCAS) sched)) \<le> Suc (netConnClosed c) \<and>
   ((\<forall>i<k. 7 \<le> count_list sched i) \<longrightarrow>
      (\<forall>p \<in> set (snd (Close_callers E (c, replicate k AtCAS) sched)). p = CloseDone)) \<and>
   (0 < k \<and> (\<forall>p \<in> set (snd (Close_callers E (c, replicate k AtCAS) sched)). p = CloseDone) \<longrightarrow>
      fst (Close_callers E (c, replicate k AtCAS) sched) = Close E c)"
proof (intro conjI impI)
  show "(Close E ^^ Suc n) c = Close E c" by (rule Close_funpow)
next
  assume "closed c \<noteq> 0"
  then show "Close E c = c" by (rule Close_closed)
next
  assume op: "closed c = 0"
  show "closed (Close E c) = 1"
    using op by (cases "shouldHandleOnlyNativeMessages c") (simp_all add: Close_open Close_open_native)
  show "netConnClosed (Close E c) = Suc (netConnClosed c)"
    using op by (cases "shouldHandleOnlyNativeMessages c") (simp_all add: Close_open Close_open_native)
  show "closeChClosed (Close E c) = Suc (closeChClosed c)"
    using op by (cases "shouldHandleOnlyNativeMessages c") (simp_all add: Close_open Close_open_native)
  show "\<exists>new. fired (Close E c) = fired c @ new \<and>
         (\<forall>e \<in> set new. Event (snd e) = OnNamespaceDisconnect E \<and> IsForced (snd e) \<and>
            IsLocal (snd e)) \<and>
         (\<forall>name. length (filter (\<lambda>e. fst e = name) new) =
            (if shouldHandleOnlyNativeMessages c \<or> map_of (connectedNamespaces c) name = None
             then 0 else 1))"
  proof (cases "shouldHandleOnlyNativeMessages c")
    case True
    then have "fired (Close E c) = fired c @ []"
      using op by (simp add: Close_open_native)
    with True show ?thesis by (intro exI[of _ "[]"]) simp
  next
    case False
    let ?new = "map (\<lambda>(name, ns). (name, disconnectMsg E ns))
                  (AList.clearjunk (connectedNamespaces c))"
    have "fired (Close E c) = fired c @ ?new"
      using op False by (simp add: Close_open)
    moreover have "\<forall>e \<in> set ?new. Event (snd e) = OnNamespaceDisconnect E \<and> IsForced (snd e) \<and>
            IsLocal (snd e)"
      by (auto simp: disconnectMsg_def)
    moreover have "\<forall>name. length (filter (\<lambda>e. fst e = name) ?new) =
            (if shouldHandleOnlyNativeMessages c \<or> map_of (connectedNamespaces c) name = None
             then 0 else 1)"
      using False count_fired_clearjunk[of _ E "connectedNamespaces c"] by simp
    ultimately show ?thesis by blast
  qed
  {
    assume "shouldHandleOnlyNativeMessages c"
    then show "connectedNamespaces (Close E c) = connectedNamespaces c"
      and "waitingMessages (Close E c) = waitingMessages c"
      using op by (simp_all add: Close_open_native)
  }
next
  show "netConnClosed (fst (Close_callers E (c, replicate k AtCAS) sched)) \<le> Suc (netConnClosed c)"
    by (rule Close_callers_netConn)
next
  assume "\<forall>i<k. 7 \<le> count_list sched i"
  then show "\<forall>p \<in> set (snd (Close_callers E (c, replicate k AtCAS) sched)). p = CloseDone"
    by (rule Close_callers_finish)
next
  assume "0 < k \<and> (\<forall>p \<in> set (snd (Close_callers E (c, replicate k AtCAS) sched)). p = CloseDone)"
  then show "fst (Close_callers E (c, replicate k AtCAS) sched) = Close E c"
    by (intro Close_callers_result) simp_all
qed

theorem Close_runs_once_witness:
  "closed serverConn0 = 0 \<and>
   (Close env0 ^^ 3) serverConn0 = Close env0 serverConn0 \<and>
   map fst (fired (Close env0 serverConn0)) = [''chat'', ''news''] \<and>
   netConnClosed (Close env0 serverConn0) = 1 \<and>
   netConnClosed ((Close env0 ^^ 3) serverConn0) = 1 \<and>
   Close_callers env0 (serverConn0, replicate 3 AtCAS)
     [0, 1, 2, 1, 0, 2, 0, 0, 1, 1, 2, 0, 0, 1, 2, 2, 0, 1, 1, 2, 2] =
     (Close env0 serverConn0, [CloseDone, CloseDone, CloseDone]) \<and>
   netConnClosed (fst (Close_callers env0 (serverConn0, replicate 3 AtCAS) [0, 1, 2, 1, 0, 2, 0, 0])) = 0"
proof -
  let ?sched = "[0, 1, 2, 1, 0, 2, 0, 0, 1, 1, 2, 0, 0, 1, 2, 2, 0, 1, 1, 2, 2] :: nat list"
  have o: "closed serverConn0 = 0" "\<not> shouldHandleOnlyNativeMessages serverConn0"
    by (simp_all add: serverConn0_def newConn0_def)
  have n: "netConnClosed serverConn0 = 0"
    by (simp add: serverConn0_def newConn0_def)
  have f: "map fst (fired (Close env0 serverConn0)) = [''chat'', ''news'']"
    by (simp add: Close_open[OF o]) (simp add: serverConn0_def newConn0_def)
  have t: "(Close env0 ^^ 3) serverConn0 = (Close env0 ^^ Suc 2) serverConn0"
    by (simp add: numeral_3_eq_3)
  have fair: "\<forall>i<3. 7 \<le> count_list ?sched i"
    by (simp add: numeral_3_eq_3 less_Suc_eq)
  note T = Close_runs_once[where E = env0 and n = 2 and c = serverConn0 and k = 3
      and sched = ?sched]
  have fin: "\<forall>p \<in> set (snd (Close_callers env0 (serverConn0, replicate 3 AtCAS) ?sched)).
      p = CloseDone"
    using T fair by blast
  have res: "fst (Close_callers env0 (serverConn0, replicate 3 AtCAS) ?sched) = Close env0 serverConn0"
    using T fin by simp
  have len: "length (snd (Close_callers env0 (serverConn0, replicate 3 AtCAS) ?sched)) = 3"
    using Close_callers_rank[of env0 serverConn0 "replicate 3 AtCAS" ?sched] by simp
  have pcs: "snd (Close_callers env0 (serverConn0, replicate 3 AtCAS) ?sched) =
      [CloseDone, CloseDone, CloseDone]"
    using fin len by (auto simp: length_Suc_conv numeral_3_eq_3)
  have early: "netConnClosed (fst (Close_callers env0 (serverConn0, replicate 3 AtCAS)
      [0, 1, 2, 1, 0, 2, 0, 0])) = 0"
    by (simp add: Close_callers_def Close_caller_step_def numeral_3_eq_3 Close_namespaces_eq
        serverConn0_def newConn0_def IsClient_def)
  show ?thesis
    using o n f T early res pcs unfolding t by (simp add: prod_eq_iff)
qed

text \<open>
  C4 as stated fails on a native-only connection: its NS-table holds the empty namespace,
  and \<^verbatim>\<open>Close\<close> skips the teardown of the namespaces, so nothing is fired for it and the
  entry stays.
\<close>

theorem Close_native_only_counterexample:
  "closed nativeConn0 = 0 \<and>
   connectedNamespaces nativeConn0 = [([], \<lparr>namespace = [], rooms = []\<rparr>)] \<and>
   fired (Close env0 nativeConn0) = [] \<and>
   connectedNamespaces (Close env0 nativeConn0) = [([], \<lparr>namespace = [], rooms = []\<rparr>)]"
  by (simp add: Close_def Let_def nativeConn0_def newConn0_def IsClient_def)

subsection \<open>The pre-ack queue\<close>










lemma HandlePayload_nil_namespace:
  assumes "allowNativeMessages c"
    and "IsNative (deserializeMessage E b True (shouldHandleOnlyNativeMessages c))"
    and "\<not> isInvalid (deserializeMessage E b True (shouldHandleOnlyNativeMessages c))"
    and "map_of (connectedNamespaces c) [] = None"
  shows "snd (HandlePayload E c b) = Panic"
  using assms
  by (simp add: HandlePayload_def handleMessage_def handleMessage_route_def Let_def)





text \<open>
  A dispatch that panics ends the drain where it is. On a server that allows native
  messages without being native-only the empty namespace is not in the NS-table: the
  first queued frame runs into the nil dereference of line 310, the second is never
  dispatched, the queue is not cleared, and the reader goes down with the panic.
\<close>

lemma drain_stops_at_nil_namespace:
  "snd (readerLoop env0 [Data ''hello'', Data ''yo'', Data ''M'']
          (serverNew0\<lparr>allowNativeMessages := True\<rparr>)) = Crashed \<and>
   handled (fst (readerLoop env0 [Data ''hello'', Data ''yo'', Data ''M'']
          (serverNew0\<lparr>allowNativeMessages := True\<rparr>))) = [''hello''] \<and>
   queue (fst (readerLoop env0 [Data ''hello'', Data ''yo'', Data ''M'']
          (serverNew0\<lparr>allowNativeMessages := True\<rparr>))) = [''hello'', ''yo'']"
  by (simp add: handleACK_def handleQueue_def HandlePayload_def handleMessage_def
      handleMessage_route_def Let_def isAcknowledged_def serverNew0_def newConn0_def env0_def
      zeroMessage_def ackBinary_def ackIDBinary_def ackNotOKBinary_def Close_keeps)

subsection \<open>Ask up to its select\<close>

lemma write_conn_ok:
  "write_conn E c b binary = (c', True) \<Longrightarrow> c' = c\<lparr>socketWrites := socketWrites c @ [(b, binary)]\<rparr>"
  by (auto simp: write_conn_def Let_def split: write_result.splits)

lemma canWrite_ok: "canWrite E c msg = (c1, True) \<Longrightarrow> \<not> IsClosed c"
  by (auto simp: canWrite_def split: if_splits)

lemma Write_ok:
  assumes "Write E c msg = (c', True)"
  shows "closed c' = 0" and "waitingMessages c' = waitingMessages c"
    and "shouldHandleOnlyNativeMessages c' = shouldHandleOnlyNativeMessages c"
proof -
  obtain c1 ok where cw: "canWrite E c msg = (c1, ok)" by (cases "canWrite E c msg")
  have ok: "ok" using assms cw by (cases ok) (simp_all add: Write_def)
  have k: "closed c1 = closed c" "waitingMessages c1 = waitingMessages c"
    "shouldHandleOnlyNativeMessages c1 = shouldHandleOnlyNativeMessages c"
    using canWrite_keeps(2,3,4)[of E c msg] cw by simp_all
  have o: "closed c = 0" using canWrite_ok cw ok by (auto simp: IsClosed_def)
  have w: "write_conn E c1 (serializeMessage E (msg\<lparr>FromExplicit := []\<rparr>)) (SetBinary msg) = (c', True)"
    using assms cw ok by (simp add: Write_def Let_def)
  show "closed c' = 0" using write_conn_ok[OF w] k o by simp
  show "waitingMessages c' = waitingMessages c" using write_conn_ok[OF w] k by simp
  show "shouldHandleOnlyNativeMessages c' = shouldHandleOnlyNativeMessages c"
    using write_conn_ok[OF w] k by simp
qed

lemma Ask_enter_Selecting:
  assumes "Ask_enter E now ctx c msg = (c0, Selecting w ch)"
  shows "\<not> shouldHandleOnlyNativeMessages c0" and "closed c0 = 0"
    and "map_of (waitingMessages c0) w = Some ch"
proof -
  let ?m = "msg\<lparr>wait := genWait E (IsClient c) (waitSeq c)\<rparr>"
  let ?c2 = "c\<lparr>waitSeq := Suc (waitSeq c), nextChan := Suc (nextChan c),
      waitingMessages := AList.update (genWait E (IsClient c) (waitSeq c)) (nextChan c) (waitingMessages c)\<rparr>"
  have n: "\<not> shouldHandleOnlyNativeMessages c"
    using assms by (auto simp: Ask_enter_def)
  have W: "Write E ?c2 ?m = (c0, True)" and w: "w = genWait E (IsClient c) (waitSeq c)"
    and ch: "ch = nextChan c"
    using assms by (auto simp: Ask_enter_def Let_def split: if_splits prod.splits)
  show "\<not> shouldHandleOnlyNativeMessages c0" using Write_ok(3)[OF W] n by simp
  show "closed c0 = 0" by (rule Write_ok(1)[OF W])
  show "map_of (waitingMessages c0) w = Some ch"
    using Write_ok(2)[OF W] w ch by (simp add: update_conv')
qed

subsection \<open>A blocked Ask among the events\<close>

lemma run_Nil: "run E ctx s [] = s"
  by (simp add: run_def)

lemma run_Cons: "run E ctx s (ev # evs) = run E ctx (step E ctx s ev) evs"
  by (simp add: run_def)

lemma run_append: "run E ctx s (xs @ ys) = run E ctx (run E ctx s xs) ys"
  by (simp add: run_def)

lemma run_snoc: "run E ctx s (xs @ [ev]) = step E ctx (run E ctx s xs) ev"
  by (simp add: run_def)

lemma step_Returned: "snd (step E ctx (c, Returned m e) ev) = Returned m e"
  by (cases ev) simp_all

lemma run_Returned: "snd (run E ctx (c, Returned m e) evs) = Returned m e"
proof (induction evs arbitrary: c)
  case Nil
  show ?case by (simp add: run_Nil)
next
  case (Cons ev evs)
  obtain c' where "step E ctx (c, Returned m e) ev = (c', Returned m e)"
    using step_Returned[of E ctx c m e ev] by (cases "step E ctx (c, Returned m e) ev") simp
  then show ?case using Cons.IH[of c'] by (simp add: run_Cons)
qed

lemma step_conn:
  "fst (step E ctx (c, st) ev) = c \<or> fst (step E ctx (c, st) ev) = Close E c \<or>
   (\<exists>w. fst (step E ctx (c, st) ev) = c\<lparr>waitingMessages := AList.delete w (waitingMessages c)\<rparr>)"
  by (cases ev; cases st) (auto split: option.splits)




lemma step_open_or_empty:
  assumes "\<not> shouldHandleOnlyNativeMessages c"
    and "closed c = 0 \<or> waitingMessages c = []"
  shows "\<not> shouldHandleOnlyNativeMessages (fst (step E ctx (c, st) ev)) \<and>
         (closed (fst (step E ctx (c, st) ev)) = 0 \<or>
          waitingMessages (fst (step E ctx (c, st) ev)) = [])"
proof -
  have cl: "\<not> shouldHandleOnlyNativeMessages (Close E c) \<and> waitingMessages (Close E c) = []"
    using assms by (cases "closed c = 0") (auto simp: Close_open Close_closed)
  from step_conn[of E ctx c st ev] show ?thesis
    using assms cl by auto
qed

lemma run_open_or_empty:
  assumes "\<not> shouldHandleOnlyNativeMessages c"
    and "closed c = 0 \<or> waitingMessages c = []"
  shows "\<not> shouldHandleOnlyNativeMessages (fst (run E ctx (c, st) evs)) \<and>
         (closed (fst (run E ctx (c, st) evs)) = 0 \<or>
          waitingMessages (fst (run E ctx (c, st) evs)) = [])"
proof (induction evs rule: rev_induct)
  case Nil
  show ?case using assms by (simp add: run_Nil)
next
  case (snoc ev evs)
  obtain d st' where r: "run E ctx (c, st) evs = (d, st')"
    by (cases "run E ctx (c, st) evs")
  show ?case
    using snoc.IH step_open_or_empty[of d E ctx st' ev] by (simp add: run_snoc r)
qed

lemma Close_empty_registry:
  "waitingMessages c = [] \<Longrightarrow> waitingMessages (Close E c) = []"
  by (rule Close_cases[of c E]; simp add: Close_open Close_open_native)

lemma route_empty_registry:
  "waitingMessages c = [] \<Longrightarrow> handleMessage_route E c m \<noteq> SendOn ch"
  by (simp add: handleMessage_route_def split: option.splits)



lemma step_none_stays:
  "map_of (waitingMessages c) w = None \<Longrightarrow>
   map_of (waitingMessages (fst (step E ctx (c, st) ev))) w = None"
proof -
  assume a: "map_of (waitingMessages c) w = None"
  have "map_of (waitingMessages (Close E c)) w = None"
    using a by - (rule Close_cases[of c E]; simp add: Close_open Close_open_native)
  with a step_conn[of E ctx c st ev] show ?thesis
    by (auto simp: delete_conv')
qed

lemma run_none_stays:
  "map_of (waitingMessages c) w = None \<Longrightarrow>
   map_of (waitingMessages (fst (run E ctx (c, st) evs))) w = None"
proof (induction evs rule: rev_induct)
  case Nil
  then show ?case by (simp add: run_Nil)
next
  case (snoc ev evs)
  obtain d st' where r: "run E ctx (c, st) evs = (d, st')"
    by (cases "run E ctx (c, st) evs")
  show ?case
    using snoc step_none_stays[of d w E ctx st' ev] by (simp add: run_snoc r)
qed

lemma step_pending_registered:
  assumes "st = Selecting w ch \<longrightarrow> IsClosed c \<or> map_of (waitingMessages c) w = Some ch"
    and "step E ctx (c, st) ev = (d, Selecting w ch)"
  shows "IsClosed d \<or> map_of (waitingMessages d) w = Some ch"
proof (cases ev)
  case CloseCalled
  then have "d = Close E c" using assms(2) by auto
  then show ?thesis using Close_sets_closed[of E c] by (simp add: IsClosed_def)
next
  case (ContextDone err)
  then show ?thesis using assms
    by (cases st) (auto split: option.splits if_splits)
next
  case (Inbound m)
  then show ?thesis using assms
    by (cases st) (auto split: if_splits)
qed

lemma run_pending_registered:
  assumes "IsClosed c \<or> map_of (waitingMessages c) w = Some ch"
    and "run E ctx (c, Selecting w ch) evs = (d, Selecting w ch)"
  shows "IsClosed d \<or> map_of (waitingMessages d) w = Some ch"
  using assms(2)
proof (induction evs arbitrary: d rule: rev_induct)
  case Nil
  then show ?case using assms(1) by (simp add: run_Nil)
next
  case (snoc ev evs)
  obtain d' st' where r: "run E ctx (c, Selecting w ch) evs = (d', st')"
    by (cases "run E ctx (c, Selecting w ch) evs")
  have s: "step E ctx (d', st') ev = (d, Selecting w ch)"
    using snoc.prems by (simp add: run_snoc r)
  have "st' = Selecting w ch \<longrightarrow> IsClosed d' \<or> map_of (waitingMessages d') w = Some ch"
    using snoc.IH[of d'] r by auto
  then show ?case using s by (rule step_pending_registered)
qed


lemma step_registry_empty:
  "waitingMessages c = [] \<Longrightarrow> waitingMessages (fst (step E ctx (c, st) ev)) = []"
  using step_conn[of E ctx c st ev] Close_empty_registry[of c E] by auto

lemma run_registry_empty:
  "waitingMessages c = [] \<Longrightarrow> waitingMessages (fst (run E ctx (c, st) evs)) = []"
proof (induction evs rule: rev_induct)
  case Nil
  then show ?case by (simp add: run_Nil)
next
  case (snoc ev evs)
  obtain d st' where r: "run E ctx (c, st) evs = (d, st')"
    by (cases "run E ctx (c, st) evs")
  show ?case
    using snoc step_registry_empty[of d E ctx st' ev] by (simp add: run_snoc r)
qed


lemma Close_after_open_or_empty:
  assumes "\<not> shouldHandleOnlyNativeMessages c"
    and "closed c = 0 \<or> waitingMessages c = []"
  shows "waitingMessages (Close E c) = []"
  using assms by (cases "closed c = 0") (auto simp: Close_open Close_closed)

lemma Ask_enter_client0:
  "ctx = None \<or> ctx = Some \<lparr>deadline = None\<rparr> \<Longrightarrow>
   Ask_enter env0 0 ctx clientConn0 chatMsg = (askedConn0, Selecting ''c'' 0)"
  by (auto simp: Ask_enter_def Write_def canWrite_def write_conn_def Let_def env0_def
      clientConn0_def newConn0_def chatMsg_def zeroMessage_def askedConn0_def
      IsClosed_def IsClient_def Is_def)

lemma askedConn0_facts:
  "closed askedConn0 = 0" "\<not> shouldHandleOnlyNativeMessages askedConn0"
  "waitingMessages askedConn0 = [(''c'', 0)]" "server askedConn0 = None"
  "allowNativeMessages askedConn0 = False"
  by (simp_all add: askedConn0_def clientConn0_def newConn0_def)

lemma route_reply0: "handleMessage_route env0 askedConn0 replyMsg = SendOn 0"
  by (simp add: handleMessage_route_def askedConn0_facts replyMsg_def zeroMessage_def
      env0_def IsClient_def)

lemma reply_Err: "Err replyMsg = None"
  by (simp add: replyMsg_def zeroMessage_def)

















text \<open>
  C3, amended. The token of a blocked \<^verbatim>\<open>Ask\<close> is in the registry, and stays there while
  the \<^verbatim>\<open>Ask\<close> is pending and the connection open. The slot receives at most one
  message: on delivery the \<^verbatim>\<open>Ask\<close> returns that message, the entry is removed, and no
  later event changes either. \<^verbatim>\<open>Close\<close> removes every entry that is registered when it
  runs, and no later event of the three brings one back. The caller gets
  the write error only through its context: when a non-nil context is done, \<^verbatim>\<open>Ask\<close>
  returns the write error if the connection is closed and the context's error if it is
  open, leaving the registry as it is.
\<close>

theorem waiter_entry_lifecycle:
  assumes "Ask_enter E now ctx c msg = (c0, Selecting w ch)"
  shows "map_of (waitingMessages c0) w = Some ch \<and>
    (run E ctx (c0, Selecting w ch) evs1 = (d, Selecting w ch) \<longrightarrow>
       (IsClosed d \<or> map_of (waitingMessages d) w = Some ch) \<and>
       (handleMessage_route E d m = SendOn ch \<longrightarrow>
          snd (run E ctx (c0, Selecting w ch) (evs1 @ Inbound m # evs2)) = Returned m (Err m) \<and>
          map_of (waitingMessages (fst (run E ctx (c0, Selecting w ch) (evs1 @ Inbound m # evs2)))) w
            = None) \<and>
       (ctx \<noteq> None \<longrightarrow>
          run E ctx (c0, Selecting w ch) (evs1 @ [ContextDone err]) =
            (d, Returned zeroMessage (Some (if IsClosed d then ErrWrite else err))))) \<and>
    waitingMessages (fst (run E ctx (c0, Selecting w ch) (evs1 @ CloseCalled # evs2))) = []"
proof (intro conjI impI)
  show reg: "map_of (waitingMessages c0) w = Some ch"
    by (rule Ask_enter_Selecting(3)[OF assms])
  {
    assume d: "run E ctx (c0, Selecting w ch) evs1 = (d, Selecting w ch)"
    show "IsClosed d \<or> map_of (waitingMessages d) w = Some ch"
      using run_pending_registered[OF _ d] reg by simp
    {
      assume "handleMessage_route E d m = SendOn ch"
      then have r: "run E ctx (c0, Selecting w ch) (evs1 @ Inbound m # evs2) =
          run E ctx (d\<lparr>waitingMessages := AList.delete w (waitingMessages d)\<rparr>, Returned m (Err m)) evs2"
        by (simp add: run_append run_Cons d)
      show "snd (run E ctx (c0, Selecting w ch) (evs1 @ Inbound m # evs2)) = Returned m (Err m)"
        unfolding r by (rule run_Returned)
      show "map_of (waitingMessages (fst (run E ctx (c0, Selecting w ch) (evs1 @ Inbound m # evs2)))) w
            = None"
        unfolding r by (rule run_none_stays) (simp add: delete_conv')
    }
    {
      assume "ctx \<noteq> None"
      then show "run E ctx (c0, Selecting w ch) (evs1 @ [ContextDone err]) =
            (d, Returned zeroMessage (Some (if IsClosed d then ErrWrite else err)))"
        by (auto simp: run_snoc d)
    }
  }
  obtain d' st' where d': "run E ctx (c0, Selecting w ch) evs1 = (d', st')"
    by (cases "run E ctx (c0, Selecting w ch) evs1")
  have "\<not> shouldHandleOnlyNativeMessages d' \<and> (closed d' = 0 \<or> waitingMessages d' = [])"
    using run_open_or_empty[of c0 E ctx "Selecting w ch" evs1]
      Ask_enter_Selecting(1,2)[OF assms] d' by simp
  then have e: "waitingMessages (Close E d') = []"
    by (simp add: Close_after_open_or_empty)
  have "run E ctx (c0, Selecting w ch) (evs1 @ CloseCalled # evs2) =
        run E ctx (Close E d', st') evs2"
    by (simp add: run_append run_Cons d')
  then show "waitingMessages (fst (run E ctx (c0, Selecting w ch) (evs1 @ CloseCalled # evs2))) = []"
    using run_registry_empty[OF e] by simp
qed

theorem waiter_entry_lifecycle_witness:
  "Ask_enter env0 0 (Some \<lparr>deadline = None\<rparr>) clientConn0 chatMsg = (askedConn0, Selecting ''c'' 0) \<and>
   map_of (waitingMessages askedConn0) ''c'' = Some 0 \<and>
   handleMessage_route env0 askedConn0 replyMsg = SendOn 0 \<and>
   snd (run env0 (Some \<lparr>deadline = None\<rparr>) (askedConn0, Selecting ''c'' 0)
          ([] @ Inbound replyMsg # [Inbound replyMsg, CloseCalled])) = Returned replyMsg None \<and>
   map_of (waitingMessages (fst (run env0 (Some \<lparr>deadline = None\<rparr>) (askedConn0, Selecting ''c'' 0)
          ([] @ Inbound replyMsg # [Inbound replyMsg, CloseCalled])))) ''c'' = None \<and>
   run env0 (Some \<lparr>deadline = None\<rparr>) (askedConn0, Selecting ''c'' 0) ([] @ [ContextDone Canceled]) =
     (askedConn0, Returned zeroMessage (Some Canceled)) \<and>
   waitingMessages (fst (run env0 (Some \<lparr>deadline = None\<rparr>) (askedConn0, Selecting ''c'' 0)
          ([] @ CloseCalled # [Inbound replyMsg]))) = []"
proof -
  let ?ctx = "Some \<lparr>deadline = None\<rparr>"
  have s: "Ask_enter env0 0 ?ctx clientConn0 chatMsg = (askedConn0, Selecting ''c'' 0)"
    by (simp add: Ask_enter_client0)
  have d: "run env0 ?ctx (askedConn0, Selecting ''c'' 0) [] = (askedConn0, Selecting ''c'' 0)"
    by (simp add: run_Nil)
  have n: "?ctx \<noteq> None" by simp
  have o: "\<not> IsClosed askedConn0" by (simp add: IsClosed_def askedConn0_facts)
  note t = waiter_entry_lifecycle[OF s, where ?evs1.0 = "[]" and d = askedConn0
      and m = replyMsg and ?evs2.0 = "[Inbound replyMsg, CloseCalled]" and err = Canceled]
  note t1 = t[THEN conjunct1]
  note t2 = t[THEN conjunct2, THEN conjunct1, rule_format, OF d, THEN conjunct2, THEN conjunct1,
      rule_format, OF route_reply0]
  note t3 = t[THEN conjunct2, THEN conjunct1, rule_format, OF d, THEN conjunct2, THEN conjunct2,
      rule_format, OF n]
  note t4 = waiter_entry_lifecycle[OF s, where ?evs1.0 = "[]" and ?evs2.0 = "[Inbound replyMsg]",
      THEN conjunct2, THEN conjunct2]
  show ?thesis
    using s t1 t2 t3 t4 o by (simp add: route_reply0 reply_Err)
qed

text \<open>
  C3 as stated fails where it promises the caller a write/close error when the connection
  closes before delivery. With a context that is never done the caller gets nothing:
  after \<^verbatim>\<open>Close\<close> the entry is gone, the late reply is not routed, and the \<^verbatim>\<open>Ask\<close> is
  still blocked. With a context cancelled before the close the caller has the context's
  error.
\<close>

theorem waiter_abandoned_counterexample:
  "Ask_enter env0 0 (Some \<lparr>deadline = None\<rparr>) clientConn0 chatMsg = (askedConn0, Selecting ''c'' 0) \<and>
   run env0 (Some \<lparr>deadline = None\<rparr>) (askedConn0, Selecting ''c'' 0) [CloseCalled, Inbound replyMsg] =
     (Close env0 askedConn0, Selecting ''c'' 0) \<and>
   IsClosed (Close env0 askedConn0) \<and>
   waitingMessages (Close env0 askedConn0) = [] \<and>
   run env0 (Some \<lparr>deadline = None\<rparr>) (askedConn0, Selecting ''c'' 0) [ContextDone Canceled, CloseCalled] =
     (Close env0 askedConn0, Returned zeroMessage (Some Canceled))"
proof -
  have s: "Ask_enter env0 0 (Some \<lparr>deadline = None\<rparr>) clientConn0 chatMsg =
      (askedConn0, Selecting ''c'' 0)"
    by (simp add: Ask_enter_client0)
  have k: "waitingMessages (Close env0 askedConn0) = []" "closed (Close env0 askedConn0) = 1"
    by (simp_all add: Close_open askedConn0_facts)
  have n: "handleMessage_route env0 (Close env0 askedConn0) replyMsg \<noteq> SendOn 0"
    by (rule route_empty_registry) (rule k)
  show ?thesis
    by (simp add: s run_Cons run_Nil n k IsClosed_def askedConn0_facts)
qed

end
